theory Spec2Isabelle
  imports Complex_Main "HOL-Library.Sublist"
begin

section \<open>Bank statement text parser (app.py)\<close>

text \<open>
  A shallow embedding of \<^verbatim>\<open>convert_date_format\<close> and of the text-processing part of
  \<^verbatim>\<open>parse_bank_statement\<close> (everything after the PDF text has been extracted).

  Modelling conventions.
  \<^item> A Python \<^verbatim>\<open>str\<close> is a HOL \<open>string\<close>: a list of 8-bit characters, read as the
    code points 0..255. Within this range the decimal digits are \<^verbatim>\<open>0\<close>..\<^verbatim>\<open>9\<close> and the
    white space of \<^verbatim>\<open>str.isspace\<close>, \<^verbatim>\<open>str.strip\<close> and \<^verbatim>\<open>\s\<close> is the set \<open>is_space\<close> below.
    Code points above 255 are outside the model.
  \<^item> An exception is a value of type \<open>exn\<close>; a call that may raise returns \<open>exn + 'a\<close>,
    and each \<^verbatim>\<open>try\<close>/\<^verbatim>\<open>except\<close> of the source is a case distinction on that sum.
  \<^item> A regular expression is a term of type \<open>regex\<close>; \<open>ms r s\<close> lists every way in which
    \<open>r\<close> can match at state \<open>s\<close>, in the order in which a backtracking matcher tries them
    (greedy operators the longest first, lazy ones the shortest first, the left alternative
    first). The head of the list is the match that \<^verbatim>\<open>re\<close> reports.
  \<^item> A Python \<^verbatim>\<open>float\<close> obtained from a decimal string is kept as the exact rational
    number that the string denotes (\<open>Fin q\<close>); Python rounds it to the nearest double.
\<close>

subsection \<open>Characters and string methods\<close>

datatype exn = ValueError | AttributeError | TypeError

definition is_space :: "char \<Rightarrow> bool" where
  "is_space c \<longleftrightarrow> c \<in> set [CHR 0x09, CHR 0x0A, CHR 0x0B, CHR 0x0C, CHR 0x0D,
     CHR 0x1C, CHR 0x1D, CHR 0x1E, CHR 0x1F, CHR 0x20, CHR 0x85, CHR 0xA0]"

definition is_digit :: "char \<Rightarrow> bool" where
  "is_digit c \<longleftrightarrow> c \<in> set ''0123456789''"

text \<open>The value of a decimal digit: its index in \<^verbatim>\<open>0123456789\<close>.\<close>

definition digit_val :: "char \<Rightarrow> nat" where
  "digit_val c = length (takeWhile (\<lambda>d. d \<noteq> c) ''0123456789'')"

definition digit_char :: "nat \<Rightarrow> char" where
  "digit_char n = ''0123456789'' ! (n mod 10)"

text \<open>\<^verbatim>\<open>s.strip()\<close>\<close>

definition strip :: "string \<Rightarrow> string" where
  "strip s = rev (dropWhile is_space (rev (dropWhile is_space s)))"

text \<open>\<^verbatim>\<open>s.split(sep)\<close> for a one-character separator: never the empty list.\<close>

fun split_on :: "char \<Rightarrow> string \<Rightarrow> string list" where
  "split_on sep [] = [[]]"
| "split_on sep (c # cs) =
     (if c = sep then [] # split_on sep cs
      else (case split_on sep cs of [] \<Rightarrow> [[c]] | w # ws \<Rightarrow> (c # w) # ws))"

text \<open>\<^verbatim>\<open>pat in s\<close>\<close>

fun contains :: "string \<Rightarrow> string \<Rightarrow> bool" where
  "contains pat [] = (pat = [])"
| "contains pat (c # cs) = (prefix pat (c # cs) \<or> contains pat cs)"

text \<open>\<^verbatim>\<open>s.replace(',', '')\<close>\<close>

definition remove_commas :: "string \<Rightarrow> string" where
  "remove_commas s = filter (\<lambda>c. c \<noteq> CHR '','') s"

subsection \<open>Regular expressions with backtracking\<close>

datatype cset =
    Lit char          \<comment> \<open>a literal character\<close>
  | OneOf string      \<comment> \<open>a class listing its members, as \<^verbatim>\<open>[A-Z0-9]\<close> or \<^verbatim>\<open>\d\<close>\<close>
  | Space             \<comment> \<open>\<^verbatim>\<open>\s\<close>\<close>
  | Dot               \<comment> \<open>\<^verbatim>\<open>.\<close>: anything but a line feed\<close>
  | DotAll            \<comment> \<open>\<^verbatim>\<open>.\<close> under \<^verbatim>\<open>re.DOTALL\<close>\<close>

fun in_cset :: "cset \<Rightarrow> char \<Rightarrow> bool" where
  "in_cset (Lit a) c = (c = a)"
| "in_cset (OneOf s) c = (c \<in> set s)"
| "in_cset Space c = is_space c"
| "in_cset Dot c = (c \<noteq> CHR 0x0A)"
| "in_cset DotAll c = True"

datatype regex =
    Eps
  | Sym cset
  | Seq regex regex
  | Alt regex regex       \<comment> \<open>\<^verbatim>\<open>a|b\<close>, the left branch first\<close>
  | Star regex            \<comment> \<open>\<^verbatim>\<open>r*\<close>, greedy\<close>
  | LazyStar regex        \<comment> \<open>\<^verbatim>\<open>r*?\<close>\<close>
  | Group nat regex       \<comment> \<open>a capturing group and its number\<close>
  | Look regex            \<comment> \<open>\<^verbatim>\<open>(?=r)\<close>\<close>
  | Bol                   \<comment> \<open>\<^verbatim>\<open>^\<close> under \<^verbatim>\<open>re.MULTILINE\<close>\<close>

text \<open>
  The state of a match: the text still to be read, whether the position is at the start of
  a line, and the groups captured so far.
\<close>

record mstate =
  rest :: string
  bol :: bool
  caps :: "nat \<Rightarrow> string option"

text \<open>
  Repetition. An iteration that consumes nothing is not repeated (the matcher of
  \<^verbatim>\<open>re\<close> breaks such loops too), so every iteration shortens the text.
\<close>

function star_g :: "(mstate \<Rightarrow> mstate list) \<Rightarrow> mstate \<Rightarrow> mstate list" where
  "star_g f s =
     concat (map (star_g f) (filter (\<lambda>s'. length (rest s') < length (rest s)) (f s))) @ [s]"
  by pat_completeness auto
termination
  by (relation "measure (\<lambda>(f, s). length (rest s))") auto

function star_l :: "(mstate \<Rightarrow> mstate list) \<Rightarrow> mstate \<Rightarrow> mstate list" where
  "star_l f s =
     s # concat (map (star_l f) (filter (\<lambda>s'. length (rest s') < length (rest s)) (f s)))"
  by pat_completeness auto
termination
  by (relation "measure (\<lambda>(f, s). length (rest s))") auto

declare star_g.simps [simp del] star_l.simps [simp del]

text \<open>The text read between two states.\<close>

definition consumed :: "mstate \<Rightarrow> mstate \<Rightarrow> string" where
  "consumed s s' = take (length (rest s) - length (rest s')) (rest s)"

primrec ms :: "regex \<Rightarrow> mstate \<Rightarrow> mstate list" where
  "ms Eps s = [s]"
| "ms (Sym cs) s =
     (case rest s of [] \<Rightarrow> []
      | c # r \<Rightarrow> if in_cset cs c then [s\<lparr>rest := r, bol := (c = CHR 0x0A)\<rparr>] else [])"
| "ms (Seq a b) s = concat (map (ms b) (ms a s))"
| "ms (Alt a b) s = ms a s @ ms b s"
| "ms (Star r) s = star_g (ms r) s"
| "ms (LazyStar r) s = star_l (ms r) s"
| "ms (Group i r) s = map (\<lambda>s'. s'\<lparr>caps := (caps s')(i \<mapsto> consumed s s')\<rparr>) (ms r s)"
| "ms (Look r) s = (if ms r s = [] then [] else [s])"
| "ms Bol s = (if bol s then [s] else [])"

text \<open>Derived operators: \<^verbatim>\<open>r?\<close>, \<^verbatim>\<open>r+\<close>, a literal string, a sequence, \<^verbatim>\<open>r{n}\<close>.\<close>

definition Opt :: "regex \<Rightarrow> regex" where
  "Opt r = Alt r Eps"

definition Plus :: "regex \<Rightarrow> regex" where
  "Plus r = Seq r (Star r)"

definition Str :: "string \<Rightarrow> regex" where
  "Str s = foldr (\<lambda>c r. Seq (Sym (Lit c)) r) s Eps"

fun seqs :: "regex list \<Rightarrow> regex" where
  "seqs [] = Eps"
| "seqs [r] = r"
| "seqs (r # rs) = Seq r (seqs rs)"

definition times :: "nat \<Rightarrow> regex \<Rightarrow> regex" where
  "times n r = seqs (replicate n r)"

definition init :: "string \<Rightarrow> mstate" where
  "init t = \<lparr>rest = t, bol = True, caps = Map.empty\<rparr>"

text \<open>\<^verbatim>\<open>pattern.match(t)\<close>: the first match at the start of the text.\<close>

definition first_match :: "regex \<Rightarrow> mstate \<Rightarrow> mstate option" where
  "first_match r s = (case ms r s of [] \<Rightarrow> None | m # _ \<Rightarrow> Some m)"

definition re_match :: "regex \<Rightarrow> string \<Rightarrow> mstate option" where
  "re_match r t = first_match r (init t)"

text \<open>\<^verbatim>\<open>re.search(pattern, t)\<close>: the first match at the leftmost position that has one.\<close>

fun search_from :: "regex \<Rightarrow> string \<Rightarrow> bool \<Rightarrow> mstate option" where
  "search_from r [] b = first_match r \<lparr>rest = [], bol = b, caps = Map.empty\<rparr>"
| "search_from r (c # cs) b =
     (case first_match r \<lparr>rest = c # cs, bol = b, caps = Map.empty\<rparr> of
        Some m \<Rightarrow> Some m
      | None \<Rightarrow> search_from r cs (c = CHR 0x0A))"

definition re_search :: "regex \<Rightarrow> string \<Rightarrow> mstate option" where
  "re_search r t = search_from r t True"

text \<open>\<^verbatim>\<open>m.group(i)\<close>: \<^verbatim>\<open>None\<close> for a group that took no part in the match.\<close>

definition group :: "mstate \<Rightarrow> nat \<Rightarrow> string option" where
  "group m i = caps m i"

subsection \<open>Numbers: \<^verbatim>\<open>int\<close> and \<^verbatim>\<open>float\<close> of a string\<close>

text \<open>The production \<^verbatim>\<open>digitpart ::= digit (["_"] digit)*\<close> of the Python grammar.\<close>

fun digitpart :: "string \<Rightarrow> bool" where
  "digitpart [] = False"
| "digitpart [c] = is_digit c"
| "digitpart (c # d # r) =
     (is_digit c \<and> (if d = CHR ''_'' then digitpart r else digitpart (d # r)))"

definition digits_val :: "string \<Rightarrow> nat" where
  "digits_val s = foldl (\<lambda>a c. if c = CHR ''_'' then a else 10 * a + digit_val c) 0 s"

fun split_sign :: "string \<Rightarrow> bool \<times> string" where
  "split_sign [] = (False, [])"
| "split_sign (c # r) =
     (if c = CHR ''-'' then (True, r) else if c = CHR ''+'' then (False, r) else (False, c # r))"

text \<open>\<^verbatim>\<open>int(s)\<close> in base ten.\<close>

definition py_int :: "string \<Rightarrow> exn + int" where
  "py_int s =
     (case split_sign (strip s) of
        (neg, ds) \<Rightarrow>
          if digitpart ds
          then Inr (if neg then - int (digits_val ds) else int (digits_val ds))
          else Inl ValueError)"

datatype pyfloat = Fin rat | PosInf | NegInf | NaN

definition to_lower :: "char \<Rightarrow> char" where
  "to_lower c =
     (case map_of (zip ''ABCDEFGHIJKLMNOPQRSTUVWXYZ'' ''abcdefghijklmnopqrstuvwxyz'') c of
        None \<Rightarrow> c | Some l \<Rightarrow> l)"

text \<open>\<^verbatim>\<open>number ::= [digitpart] "." digitpart | digitpart ["."]\<close>\<close>

definition parse_number :: "string \<Rightarrow> rat option" where
  "parse_number s =
     (let ip = takeWhile (\<lambda>c. c \<noteq> CHR ''.'') s;
          r = dropWhile (\<lambda>c. c \<noteq> CHR ''.'') s
      in case r of
           [] \<Rightarrow> if digitpart ip then Some (of_nat (digits_val ip)) else None
         | _ # fp \<Rightarrow>
             if (ip = [] \<or> digitpart ip) \<and> (fp = [] \<or> digitpart fp) \<and> (ip \<noteq> [] \<or> fp \<noteq> [])
             then Some (of_nat (digits_val ip)
                        + of_nat (digits_val fp) / 10 ^ length (filter is_digit fp))
             else None)"

text \<open>\<^verbatim>\<open>floatnumber ::= number [("e" | "E") ["+" | "-"] digitpart]\<close>\<close>

definition parse_floatnumber :: "string \<Rightarrow> rat option" where
  "parse_floatnumber s =
     (let m = takeWhile (\<lambda>c. c \<noteq> CHR ''e'' \<and> c \<noteq> CHR ''E'') s;
          r = dropWhile (\<lambda>c. c \<noteq> CHR ''e'' \<and> c \<noteq> CHR ''E'') s
      in case r of
           [] \<Rightarrow> parse_number m
         | _ # ex \<Rightarrow>
             (case parse_number m of
                None \<Rightarrow> None
              | Some q \<Rightarrow>
                  (case split_sign ex of
                     (neg, ds) \<Rightarrow>
                       if digitpart ds
                       then Some (if neg then q / 10 ^ digits_val ds else q * 10 ^ digits_val ds)
                       else None)))"

text \<open>
  \<^verbatim>\<open>float(s)\<close>: white space around the number is dropped, then an optional sign, then
  \<^verbatim>\<open>inf\<close>, \<^verbatim>\<open>infinity\<close> or \<^verbatim>\<open>nan\<close> in any case, or a \<^verbatim>\<open>floatnumber\<close>.
\<close>

definition py_float :: "string \<Rightarrow> exn + pyfloat" where
  "py_float s =
     (case split_sign (strip s) of
        (neg, u) \<Rightarrow>
          if map to_lower u = ''inf'' \<or> map to_lower u = ''infinity''
          then Inr (if neg then NegInf else PosInf)
          else if map to_lower u = ''nan'' then Inr NaN
          else (case parse_floatnumber u of
                  None \<Rightarrow> Inl ValueError
                | Some q \<Rightarrow> Inr (Fin (if neg then - q else q))))"

text \<open>\<open>0 \<le> x\<close> on floats (false for a NaN).\<close>

fun nonneg :: "pyfloat \<Rightarrow> bool" where
  "nonneg (Fin q) = (0 \<le> q)"
| "nonneg PosInf = True"
| "nonneg NegInf = False"
| "nonneg NaN = False"

subsection \<open>Dates: \<^verbatim>\<open>datetime.strptime\<close> and \<^verbatim>\<open>strftime\<close>\<close>

definition is_leap :: "int \<Rightarrow> bool" where
  "is_leap y \<longleftrightarrow> y mod 4 = 0 \<and> (y mod 400 = 0 \<or> y mod 100 \<noteq> 0)"

definition days_in_month :: "int \<Rightarrow> int \<Rightarrow> int" where
  "days_in_month y m =
     (if m = 2 then (if is_leap y then 29 else 28)
      else if m = 4 \<or> m = 6 \<or> m = 9 \<or> m = 11 then 30 else 31)"

text \<open>The dates that the constructor of \<^verbatim>\<open>datetime\<close> accepts.\<close>

definition valid_date :: "int \<Rightarrow> int \<Rightarrow> int \<Rightarrow> bool" where
  "valid_date y m d \<longleftrightarrow>
     1 \<le> y \<and> y \<le> 9999 \<and> 1 \<le> m \<and> m \<le> 12 \<and> 1 \<le> d \<and> d \<le> days_in_month y m"

definition chr :: "char \<Rightarrow> regex" where
  "chr c = Sym (Lit c)"

definition digit :: regex where
  "digit = Sym (OneOf ''0123456789'')"

text \<open>\<^verbatim>\<open>\s+\<close>\<close>

definition ws1 :: regex where
  "ws1 = Plus (Sym Space)"

text \<open>
  The patterns that \<^verbatim>\<open>strptime\<close> puts for its directives:
  \<^verbatim>\<open>%d\<close> is \<^verbatim>\<open>(?P<d>3[0-1]|[1-2]\d|0[1-9]|[1-9]| [1-9])\<close>,
  \<^verbatim>\<open>%m\<close> is \<^verbatim>\<open>(?P<m>1[0-2]|0[1-9]|[1-9])\<close>,
  \<^verbatim>\<open>%y\<close> is \<^verbatim>\<open>(?P<y>\d\d)\<close> and \<^verbatim>\<open>%Y\<close> is \<^verbatim>\<open>(?P<Y>\d\d\d\d)\<close>.
\<close>

definition directive_d :: regex where
  "directive_d =
     Alt (Seq (chr CHR ''3'') (Sym (OneOf ''01'')))
    (Alt (Seq (Sym (OneOf ''12'')) digit)
    (Alt (Seq (chr CHR ''0'') (Sym (OneOf ''123456789'')))
    (Alt (Sym (OneOf ''123456789''))
         (Seq (chr CHR '' '') (Sym (OneOf ''123456789''))))))"

definition directive_m :: regex where
  "directive_m =
     Alt (Seq (chr CHR ''1'') (Sym (OneOf ''012'')))
    (Alt (Seq (chr CHR ''0'') (Sym (OneOf ''123456789'')))
         (Sym (OneOf ''123456789'')))"

datatype yfmt = Y2 | Y4

definition directive_y :: "yfmt \<Rightarrow> regex" where
  "directive_y f = (case f of Y2 \<Rightarrow> times 2 digit | Y4 \<Rightarrow> times 4 digit)"

text \<open>The pattern of the format \<^verbatim>\<open>%d/%m/%y\<close> (\<open>Y2\<close>) or \<^verbatim>\<open>%d/%m/%Y\<close> (\<open>Y4\<close>).\<close>

definition strptime_regex :: "yfmt \<Rightarrow> regex" where
  "strptime_regex f =
     seqs [Group 1 directive_d, chr CHR ''/'', Group 2 directive_m, chr CHR ''/'',
           Group 3 (directive_y f)]"

text \<open>A two-digit year: \<^verbatim>\<open>if year <= 68: year += 2000 else: year += 1900\<close>.\<close>

definition century :: "yfmt \<Rightarrow> int \<Rightarrow> int" where
  "century f y = (case f of Y2 \<Rightarrow> if y \<le> 68 then y + 2000 else y + 1900 | Y4 \<Rightarrow> y)"

text \<open>\<^verbatim>\<open>int(g)\<close> of a group; \<^verbatim>\<open>int(None)\<close> is a \<^verbatim>\<open>TypeError\<close>.\<close>

definition int_of_group :: "string option \<Rightarrow> exn + int" where
  "int_of_group g = (case g of None \<Rightarrow> Inl TypeError | Some s \<Rightarrow> py_int s)"

definition ebind :: "exn + 'a \<Rightarrow> ('a \<Rightarrow> exn + 'b) \<Rightarrow> exn + 'b" where
  "ebind x f = (case x of Inl e \<Rightarrow> Inl e | Inr a \<Rightarrow> f a)"

text \<open>
  \<^verbatim>\<open>datetime.strptime(s, fmt)\<close> as (year, month, day): the pattern must match at the start
  and reach the end of \<open>s\<close>, and the three numbers must be a date.
\<close>

definition strptime :: "yfmt \<Rightarrow> string \<Rightarrow> exn + (int \<times> int \<times> int)" where
  "strptime f s =
     (case re_match (strptime_regex f) s of
        None \<Rightarrow> Inl ValueError
      | Some m \<Rightarrow>
          if rest m \<noteq> [] then Inl ValueError
          else
            ebind (int_of_group (group m 1)) (\<lambda>d.
            ebind (int_of_group (group m 2)) (\<lambda>mo.
            ebind (int_of_group (group m 3)) (\<lambda>y.
              if valid_date (century f y) mo d then Inr (century f y, mo, d)
              else Inl ValueError))))"

definition pad2 :: "nat \<Rightarrow> string" where
  "pad2 n = [digit_char (n div 10), digit_char n]"

definition pad4 :: "nat \<Rightarrow> string" where
  "pad4 n = [digit_char (n div 1000), digit_char (n div 100), digit_char (n div 10), digit_char n]"

text \<open>
  \<^verbatim>\<open>%Y\<close> of a year 1..9999. Whether a year below 1000 is padded with zeros depends on the
  platform's \<^verbatim>\<open>strftime\<close> (C library and Python version); \<open>zp\<close> says that it is.
\<close>

definition year_str :: "bool \<Rightarrow> nat \<Rightarrow> string" where
  "year_str zp y = (if zp then pad4 y else dropWhile (\<lambda>c. c = CHR ''0'') (pad4 y))"

text \<open>\<^verbatim>\<open>date_obj.strftime("%Y-%m-%d")\<close>\<close>

definition strftime :: "bool \<Rightarrow> int \<times> int \<times> int \<Rightarrow> string" where
  "strftime zp ymd =
     (case ymd of (y, m, d) \<Rightarrow> year_str zp (nat y) @ ''-'' @ pad2 (nat m) @ ''-'' @ pad2 (nat d))"

text \<open>\<^verbatim>\<open>convert_date_format\<close>: each \<^verbatim>\<open>except\<close> catches a \<^verbatim>\<open>ValueError\<close> and nothing else.\<close>

definition convert_date_format :: "bool \<Rightarrow> string \<Rightarrow> exn + string" where
  "convert_date_format zp date_str =
     (case strptime Y2 date_str of
        Inr date_obj \<Rightarrow> Inr (strftime zp date_obj)
      | Inl e \<Rightarrow>
          if e \<noteq> ValueError then Inl e
          else (case strptime Y4 date_str of
                  Inr date_obj \<Rightarrow> Inr (strftime zp date_obj)
                | Inl e' \<Rightarrow> if e' \<noteq> ValueError then Inl e' else Inr date_str))"

subsection \<open>The patterns of \<^verbatim>\<open>parse_bank_statement\<close>\<close>

text \<open>\<^verbatim>\<open>Name\s+(.*?)\n\<close>\<close>

definition account_holder_re :: regex where
  "account_holder_re =
     seqs [Str ''Name'', ws1, Group 1 (LazyStar (Sym Dot)), chr CHR 0x0A]"

text \<open>\<^verbatim>\<open>Address\s+(.*?)\nAccount No\<close> under \<^verbatim>\<open>re.DOTALL\<close>\<close>

definition address_re :: regex where
  "address_re =
     seqs [Str ''Address'', ws1, Group 1 (LazyStar (Sym DotAll)), chr CHR 0x0A,
           Str ''Account No'']"

text \<open>\<^verbatim>\<open>Account No\s+(\d+)\<close>\<close>

definition account_no_re :: regex where
  "account_no_re = seqs [Str ''Account No'', ws1, Group 1 (Plus digit)]"

text \<open>\<^verbatim>\<open>Account Type\s+(.*?)\n\<close>\<close>

definition account_type_re :: regex where
  "account_type_re =
     seqs [Str ''Account Type'', ws1, Group 1 (LazyStar (Sym Dot)), chr CHR 0x0A]"

text \<open>\<^verbatim>\<open>\d{2}/\d{2}/\d{4}\<close> and \<^verbatim>\<open>\d{2}/\d{2}/\d{2}\<close>\<close>

definition date4_re :: regex where
  "date4_re =
     seqs [times 2 digit, chr CHR ''/'', times 2 digit, chr CHR ''/'', times 4 digit]"

definition date2_re :: regex where
  "date2_re =
     seqs [times 2 digit, chr CHR ''/'', times 2 digit, chr CHR ''/'', times 2 digit]"

text \<open>
  \<^verbatim>\<open>Account Statement for the period of\s+(\d{2}/\d{2}/\d{4})\s+to\s+(\d{2}/\d{2}/\d{4})\<close>
\<close>

definition period_re :: regex where
  "period_re =
     seqs [Str ''Account Statement for the period of'', ws1, Group 1 date4_re, ws1,
           Str ''to'', ws1, Group 2 date4_re]"

text \<open>\<^verbatim>\<open>\d{1,3}(?:,\d{3})*\.\d{2}\<close>\<close>

definition amount_re :: regex where
  "amount_re =
     seqs [digit, Opt (Seq digit (Opt digit)),
           Star (Seq (chr CHR '','') (times 3 digit)),
           chr CHR ''.'', times 2 digit]"

text \<open>\<^verbatim>\<open>\d{1,3}(?:,\d{3})*\.\d{2}|0\.00\<close>\<close>

definition amount0_re :: regex where
  "amount0_re = Alt amount_re (Str ''0.00'')"

text \<open>\<^verbatim>\<open>[A-Z0-9]+\<close>\<close>

definition instrument_re :: regex where
  "instrument_re = Plus (Sym (OneOf ''ABCDEFGHIJKLMNOPQRSTUVWXYZ0123456789''))"

text \<open>\<^verbatim>\<open>(?=\d{1,3}(?:,\d{3})*\.\d{2}|0\.00|\s+\d{1,3}(?:,\d{3})*\.\d{2})\<close>\<close>

definition numeric_ahead :: regex where
  "numeric_ahead = Look (Alt amount_re (Alt (Str ''0.00'') (Seq ws1 amount_re)))"

text \<open>The transaction pattern, group by group as the source writes it.\<close>

definition transaction_pattern :: regex where
  "transaction_pattern =
     seqs [Group 1 date2_re, ws1,
           Group 2 date2_re, ws1,
           Group 3 (LazyStar (Sym Dot)), ws1,
           numeric_ahead,
           Opt (Group 4 instrument_re), Star (Sym Space),
           Opt (Group 5 amount0_re), ws1,
           Opt (Group 6 amount0_re), ws1,
           Group 7 amount_re]"

text \<open>\<^verbatim>\<open>[\d,]+\.\d{2}\<close>\<close>

definition total_num_re :: regex where
  "total_num_re = seqs [Plus (Sym (OneOf ''0123456789,'')), chr CHR ''.'', times 2 digit]"

text \<open>
  \<^verbatim>\<open>^\s*(?:,*\s*)*TOTAL\s+([\d,]+\.\d{2})\s+([\d,]+\.\d{2})\s+([\d,]+\.\d{2})\<close>
  under \<^verbatim>\<open>re.MULTILINE\<close>
\<close>

definition total_re :: regex where
  "total_re =
     seqs [Bol, Star (Sym Space), Star (Seq (Star (chr CHR '','')) (Star (Sym Space))),
           Str ''TOTAL'', ws1, Group 1 total_num_re, ws1, Group 2 total_num_re, ws1,
           Group 3 total_num_re]"

subsection \<open>The result and its three sections\<close>

datatype jval = JNull | JStr string | JObj "(string \<times> jval) list"

record transaction =
  date :: string
  post_date :: string
  description :: string
  reference :: "string option"
  withdrawal :: pyfloat
  deposit :: pyfloat
  balance :: pyfloat

record totals =
  total_withdrawal :: "pyfloat option"
  total_deposit :: "pyfloat option"
  final_balance :: "pyfloat option"

text \<open>
  \<^verbatim>\<open>account_info\<close> is a dictionary that the source fills key by key, so it is a map: a key
  that was never assigned is absent from its domain.
\<close>

record parse_result =
  account_info :: "string \<rightharpoonup> jval"
  transactions :: "transaction list"
  totals :: totals

text \<open>\<^verbatim>\<open>g.strip()\<close> of a group: an \<^verbatim>\<open>AttributeError\<close> on \<^verbatim>\<open>None\<close>.\<close>

definition strip_group :: "string option \<Rightarrow> exn + string" where
  "strip_group g = (case g of None \<Rightarrow> Inl AttributeError | Some s \<Rightarrow> Inr (strip s))"

text \<open>\<^verbatim>\<open>convert_date_format(g)\<close> of a group: \<^verbatim>\<open>strptime\<close> of \<^verbatim>\<open>None\<close> is a \<^verbatim>\<open>TypeError\<close>.\<close>

definition convert_group :: "bool \<Rightarrow> string option \<Rightarrow> exn + string" where
  "convert_group zp g = (case g of None \<Rightarrow> Inl TypeError | Some s \<Rightarrow> convert_date_format zp s)"

text \<open>
  The account information. The assignments stand in one \<^verbatim>\<open>try\<close> block whose handler
  only prints: an exception leaves the dictionary as the assignments before it made it.
\<close>

definition extract_account_info :: "bool \<Rightarrow> string \<Rightarrow> (string \<rightharpoonup> jval)" where
  "extract_account_info zp text =
     (let ai0 = [''bank'' \<mapsto> JStr ''Islami Bank Bangladesh PLC.''];
          account_holder_match = re_search account_holder_re text;
          address_match = re_search address_re text;
          account_no_match = re_search account_no_re text;
          account_type_match = re_search account_type_re text;
          period_match = re_search period_re text
      in
      case (case account_holder_match of
              None \<Rightarrow> Inr JNull
            | Some m \<Rightarrow> ebind (strip_group (group m 1)) (\<lambda>s. Inr (JStr s))) of
        Inl e \<Rightarrow> ai0
      | Inr holder \<Rightarrow>
     (let ai1 = ai0(''account_holder'' \<mapsto> holder);
          ai2 = ai1(''account_number'' \<mapsto>
                  (case account_no_match of
                     None \<Rightarrow> JNull
                   | Some m \<Rightarrow> (case group m 1 of None \<Rightarrow> JNull | Some s \<Rightarrow> JStr s)))
      in
      case (case account_type_match of
              None \<Rightarrow> Inr JNull
            | Some m \<Rightarrow> ebind (strip_group (group m 1)) (\<lambda>s. Inr (JStr s))) of
        Inl e \<Rightarrow> ai2
      | Inr ty \<Rightarrow>
     (let ai3 = ai2(''account_type'' \<mapsto> ty)
      in
      case period_match of
        None \<Rightarrow>
          ai3(''statement_period'' \<mapsto> JObj [(''start_date'', JNull), (''end_date'', JNull)])
      | Some m \<Rightarrow>
         (case ebind (strip_group (group m 1)) (\<lambda>start_date_str.
               ebind (strip_group (group m 2)) (\<lambda>end_date_str.
               ebind (convert_date_format zp start_date_str) (\<lambda>sd.
               ebind (convert_date_format zp end_date_str) (\<lambda>ed.
                 Inr (JObj [(''start_date'', JStr sd), (''end_date'', JStr ed)]))))) of
            Inl e \<Rightarrow> ai3
          | Inr period \<Rightarrow> ai3(''statement_period'' \<mapsto> period)))))"

text \<open>
  The test that skips a line:
  \<^verbatim>\<open>"Trans Date" in line or "Post Date" in line or "Report taken on" in line or
  "B/F" in line or "Page" in line or not line.strip()\<close>
\<close>

definition skip_line :: "string \<Rightarrow> bool" where
  "skip_line line \<longleftrightarrow>
     contains ''Trans Date'' line \<or> contains ''Post Date'' line
     \<or> contains ''Report taken on'' line \<or> contains ''B/F'' line
     \<or> contains ''Page'' line \<or> strip line = []"

text \<open>\<^verbatim>\<open>(g or "0.00").strip().replace(',', '')\<close>\<close>

definition amount_str :: "string option \<Rightarrow> string" where
  "amount_str g =
     remove_commas (strip (case g of None \<Rightarrow> ''0.00'' | Some s \<Rightarrow> if s = [] then ''0.00'' else s))"

text \<open>\<^verbatim>\<open>float(a) if a else 0.00\<close>\<close>

definition amount_val :: "string \<Rightarrow> exn + pyfloat" where
  "amount_val a = (if a \<noteq> [] then py_float a else Inr (Fin 0))"

text \<open>
  The body of the inner \<^verbatim>\<open>try\<close>: the record of a matched line, or the exception that
  makes the loop drop the line.
\<close>

definition build_transaction :: "bool \<Rightarrow> mstate \<Rightarrow> exn + transaction" where
  "build_transaction zp m =
     (let withdraw_str = amount_str (group m 5);
          deposit_str = amount_str (group m 6);
          balance_str = amount_str (group m 7)
      in
      ebind (convert_group zp (group m 1)) (\<lambda>d.
      ebind (convert_group zp (group m 2)) (\<lambda>pd.
      ebind (strip_group (group m 3)) (\<lambda>descr.
      ebind (amount_val withdraw_str) (\<lambda>w.
      ebind (amount_val deposit_str) (\<lambda>dep.
      ebind (amount_val balance_str) (\<lambda>bal.
        Inr \<lparr>date = d, post_date = pd, description = descr,
             reference = (case group m 4 of
                            None \<Rightarrow> None
                          | Some r \<Rightarrow> if r = [] then None else Some (strip r)),
             withdrawal = w, deposit = dep, balance = bal\<rparr>)))))))"

text \<open>The record that one line yields, if any: \<open>None\<close> is a line without a record.\<close>

definition line_transaction :: "bool \<Rightarrow> string \<Rightarrow> transaction option" where
  "line_transaction zp line =
     (if skip_line line then None
      else (case re_match transaction_pattern (strip line) of
              None \<Rightarrow> None
            | Some m \<Rightarrow> (case build_transaction zp m of Inl e \<Rightarrow> None | Inr t \<Rightarrow> Some t)))"

text \<open>The loop over the lines, appending to \<^verbatim>\<open>transactions\<close>.\<close>

fun transaction_loop :: "bool \<Rightarrow> string list \<Rightarrow> transaction list \<Rightarrow> transaction list" where
  "transaction_loop zp [] acc = acc"
| "transaction_loop zp (line # lines) acc =
     (case line_transaction zp line of
        None \<Rightarrow> transaction_loop zp lines acc
      | Some t \<Rightarrow> transaction_loop zp lines (acc @ [t]))"

definition extract_transactions :: "bool \<Rightarrow> string \<Rightarrow> transaction list" where
  "extract_transactions zp text = transaction_loop zp (split_on CHR 0x0A text) []"

text \<open>
  The totals. The three \<^verbatim>\<open>replace\<close> calls come first, then the three assignments, each
  after its own \<^verbatim>\<open>float\<close>; the handler only prints, so an exception leaves the
  assignments made before it.
\<close>

definition extract_totals :: "string \<Rightarrow> totals" where
  "extract_totals text =
     (let t0 = \<lparr>total_withdrawal = None, total_deposit = None, final_balance = None\<rparr>
      in
      case re_search total_re text of
        None \<Rightarrow> t0
      | Some m \<Rightarrow>
         (case (group m 1, group m 2, group m 3) of
            (Some g1, Some g2, Some g3) \<Rightarrow>
              (case py_float (remove_commas g1) of
                 Inl e \<Rightarrow> t0
               | Inr w \<Rightarrow>
                  (case py_float (remove_commas g2) of
                     Inl e \<Rightarrow> t0\<lparr>total_withdrawal := Some w\<rparr>
                   | Inr d \<Rightarrow>
                      (case py_float (remove_commas g3) of
                         Inl e \<Rightarrow> t0\<lparr>total_withdrawal := Some w, total_deposit := Some d\<rparr>
                       | Inr b \<Rightarrow>
                           t0\<lparr>total_withdrawal := Some w, total_deposit := Some d,
                              final_balance := Some b\<rparr>)))
          | _ \<Rightarrow> t0))"

text \<open>
  \<^verbatim>\<open>parse_bank_statement\<close> from the extracted text on. No call outside the three
  \<^verbatim>\<open>try\<close> blocks can raise, so the result is the dictionary of the \<^verbatim>\<open>return\<close>.
\<close>

definition parse_bank_statement :: "bool \<Rightarrow> string \<Rightarrow> parse_result" where
  "parse_bank_statement zp text =
     \<lparr>account_info = extract_account_info zp text,
      transactions = extract_transactions zp text,
      totals = extract_totals text\<rparr>"

section \<open>Analysis of the patterns\<close>

text \<open>
  Three readings of a pattern that do not depend on the text: the characters that a match
  may read (\<open>allowed\<close>), the bodies of the groups with a given number (\<open>gbodies\<close>) and
  the groups that every match sets (\<open>must\<close>). A lookahead reads nothing and, having no
  group in this program, sets nothing.
\<close>

primrec allowed :: "regex \<Rightarrow> char \<Rightarrow> bool" where
  "allowed Eps c = False"
| "allowed (Sym cs) c = in_cset cs c"
| "allowed (Seq a b) c = (allowed a c \<or> allowed b c)"
| "allowed (Alt a b) c = (allowed a c \<or> allowed b c)"
| "allowed (Star r) c = allowed r c"
| "allowed (LazyStar r) c = allowed r c"
| "allowed (Group i r) c = allowed r c"
| "allowed (Look r) c = False"
| "allowed Bol c = False"

primrec gbodies :: "nat \<Rightarrow> regex \<Rightarrow> regex set" where
  "gbodies i Eps = {}"
| "gbodies i (Sym cs) = {}"
| "gbodies i (Seq a b) = gbodies i a \<union> gbodies i b"
| "gbodies i (Alt a b) = gbodies i a \<union> gbodies i b"
| "gbodies i (Star r) = gbodies i r"
| "gbodies i (LazyStar r) = gbodies i r"
| "gbodies i (Group j r) = (if i = j then insert r (gbodies i r) else gbodies i r)"
| "gbodies i (Look r) = {}"
| "gbodies i Bol = {}"

primrec must :: "regex \<Rightarrow> nat set" where
  "must Eps = {}"
| "must (Sym cs) = {}"
| "must (Seq a b) = must a \<union> must b"
| "must (Alt a b) = must a \<inter> must b"
| "must (Star r) = {}"
| "must (LazyStar r) = {}"
| "must (Group j r) = insert j (must r)"
| "must (Look r) = {}"
| "must Bol = {}"

definition reads :: "(char \<Rightarrow> bool) \<Rightarrow> mstate \<Rightarrow> mstate \<Rightarrow> bool" where
  "reads P s x \<longleftrightarrow> (\<exists>w. rest s = w @ rest x \<and> list_all P w)"

definition cap_rel :: "nat \<Rightarrow> regex set \<Rightarrow> mstate \<Rightarrow> mstate \<Rightarrow> bool" where
  "cap_rel i B s x \<longleftrightarrow>
     caps x i = caps s i \<or>
     (\<exists>b\<in>B. \<exists>s1 s2. s2 \<in> set (ms b s1) \<and> caps x i = Some (consumed s1 s2))"

definition amount_char :: "char \<Rightarrow> bool" where
  "amount_char c \<longleftrightarrow> is_digit c \<or> c = CHR '','' \<or> c = CHR ''.''"

text \<open>The class \<^verbatim>\<open>[A-Z0-9]\<close> of the instrument group.\<close>

definition instrument_char :: "char \<Rightarrow> bool" where
  "instrument_char c \<longleftrightarrow> c \<in> set ''ABCDEFGHIJKLMNOPQRSTUVWXYZ0123456789''"

text \<open>The keys of \<^verbatim>\<open>account_info\<close> in the output shape.\<close>

definition result_keys :: "string set" where
  "result_keys = {''bank'', ''account_holder'', ''account_number'', ''account_type'',
     ''statement_period''}"

text \<open>The markers of a line that is no transaction, as the skip test lists them.\<close>

definition non_transaction_markers :: "string list" where
  "non_transaction_markers = [''Trans Date'', ''Post Date'', ''Report taken on'', ''B/F'', ''Page'']"


section \<open>Readings of a date token\<close>











section \<open>Strings and loops\<close>

lemma contains_sublist: "contains p s \<longleftrightarrow> sublist p s"
  by (induction s) (simp_all add: sublist_Cons_right)

lemma strip_Nil_iff: "strip s = [] \<longleftrightarrow> list_all is_space s"
proof
  assume "list_all is_space s"
  then have d: "dropWhile is_space s = []" by (simp add: list_all_iff)
  show "strip s = []" unfolding strip_def d by simp
next
  assume e: "strip s = []"
  show "list_all is_space s"
  proof (cases "dropWhile is_space s = []")
    case True
    then show ?thesis by (simp add: list_all_iff)
  next
    case False
    then have "\<not> is_space (hd (dropWhile is_space s))" by (rule hd_dropWhile)
    moreover have "hd (dropWhile is_space s) \<in> set (rev (dropWhile is_space s))"
      using False by simp
    ultimately have "dropWhile is_space (rev (dropWhile is_space s)) \<noteq> []"
      unfolding dropWhile_eq_Nil_conv by blast
    then show ?thesis using e by (simp add: strip_def)
  qed
qed

lemma set_strip: "set (strip s) \<subseteq> set s"
  unfolding strip_def by (auto dest!: set_dropWhileD)

lemma strip_id: "\<forall>c\<in>set s. \<not> is_space c \<Longrightarrow> strip s = s"
proof -
  assume a: "\<forall>c\<in>set s. \<not> is_space c"
  then have "dropWhile is_space s = s" by (cases s) auto
  moreover from a have "dropWhile is_space (rev s) = rev s" by (cases "rev s") auto
  ultimately show ?thesis by (simp add: strip_def)
qed

lemma transaction_loop_map_filter:
  "transaction_loop zp ls acc = acc @ List.map_filter (line_transaction zp) ls"
  by (induction ls arbitrary: acc) (auto split: option.splits)

lemma map_filter_append: "List.map_filter f (xs @ ys) = List.map_filter f xs @ List.map_filter f ys"
  by (simp add: List.map_filter_def)

lemma map_filter_indices:
  "\<exists>is. sorted_wrt (<) is \<and> (\<forall>i\<in>set is. i < length xs \<and> f (xs ! i) \<noteq> None)
     \<and> map Some (List.map_filter f xs) = map (\<lambda>i. f (xs ! i)) is"
proof (induction xs rule: rev_induct)
  case Nil
  show ?case by (rule exI [of _ "[]"]) simp
next
  case (snoc x xs)
  then obtain js where js: "sorted_wrt (<) js"
    "\<forall>i\<in>set js. i < length xs \<and> f (xs ! i) \<noteq> None"
    "map Some (List.map_filter f xs) = map (\<lambda>i. f (xs ! i)) js" by blast
  have same: "map (\<lambda>i. f ((xs @ [x]) ! i)) js = map (\<lambda>i. f (xs ! i)) js"
    using js(2) by (auto simp: nth_append)
  show ?case
  proof (cases "f x")
    case None
    have "sorted_wrt (<) js \<and> (\<forall>i\<in>set js. i < length (xs @ [x]) \<and> f ((xs @ [x]) ! i) \<noteq> None)
      \<and> map Some (List.map_filter f (xs @ [x])) = map (\<lambda>i. f ((xs @ [x]) ! i)) js"
      using js None same by (auto simp: map_filter_append nth_append)
    then show ?thesis by blast
  next
    case (Some y)
    have "sorted_wrt (<) (js @ [length xs]) \<and>
      (\<forall>i\<in>set (js @ [length xs]). i < length (xs @ [x]) \<and> f ((xs @ [x]) ! i) \<noteq> None)
      \<and> map Some (List.map_filter f (xs @ [x])) = map (\<lambda>i. f ((xs @ [x]) ! i)) (js @ [length xs])"
      using js Some same
      by (auto simp: map_filter_append nth_append sorted_wrt_append)
    then show ?thesis by blast
  qed
qed

lemma length_map_filter_le: "length (List.map_filter f xs) \<le> length (filter (\<lambda>x. f x \<noteq> None) xs)"
  by (simp add: List.map_filter_def)


lemma is_digit_simps:
  "is_digit c \<Longrightarrow> \<not> is_space c" "is_digit c \<Longrightarrow> c \<noteq> CHR ''.''" "is_digit c \<Longrightarrow> c \<noteq> CHR ''_''"
  "is_digit c \<Longrightarrow> c \<noteq> CHR ''-''" "is_digit c \<Longrightarrow> c \<noteq> CHR ''+''" "is_digit c \<Longrightarrow> c \<noteq> CHR ''e''"
  "is_digit c \<Longrightarrow> c \<noteq> CHR ''E''" "is_digit c \<Longrightarrow> c \<noteq> CHR '',''"
  "is_digit c \<Longrightarrow> c \<noteq> CHR ''n''" "is_digit c \<Longrightarrow> c \<noteq> CHR ''N''"
  by (auto simp: is_digit_def is_space_def)

lemma digitpart_digits: "list_all is_digit w \<Longrightarrow> w \<noteq> [] \<Longrightarrow> digitpart w"
  by (induction w rule: digitpart.induct) (auto simp: is_digit_simps)

lemma parse_number_nonneg: "parse_number s = Some q \<Longrightarrow> 0 \<le> q"
  by (auto simp: parse_number_def Let_def split: list.splits if_splits)

lemma parse_floatnumber_nonneg: "parse_floatnumber s = Some q \<Longrightarrow> 0 \<le> q"
  by (auto simp: parse_floatnumber_def Let_def split: list.splits if_splits option.splits prod.splits
      dest!: parse_number_nonneg)

lemma split_sign_neg: "split_sign t = (True, u) \<Longrightarrow> CHR ''-'' \<in> set t"
  by (cases t) (auto split: if_splits)

lemma split_sign_set: "split_sign t = (b, u) \<Longrightarrow> set u \<subseteq> set t"
  by (cases t) (auto split: if_splits)

lemma to_lower_n: "to_lower a = CHR ''n'' \<Longrightarrow> a = CHR ''n'' \<or> a = CHR ''N''"
  by (auto simp: to_lower_def split: if_splits)

lemma py_float_nonneg:
  assumes "py_float s = Inr v" "CHR ''-'' \<notin> set s" "CHR ''n'' \<notin> set s" "CHR ''N'' \<notin> set s"
  shows "nonneg v"
proof -
  obtain neg u where su: "split_sign (strip s) = (neg, u)" by (cases "split_sign (strip s)")
  have "\<not> neg" using su split_sign_neg [of "strip s" u] set_strip [of s] assms(2) by (cases neg) auto
  have uset: "set u \<subseteq> set s" using split_sign_set [OF su] set_strip [of s] by blast
  have nonan: "map to_lower u \<noteq> ''nan''"
  proof
    assume "map to_lower u = ''nan''"
    then obtain a r where "u = a # r" "to_lower a = CHR ''n''" by (cases u) auto
    then show False using to_lower_n [of a] uset assms(3,4) by auto
  qed
  show ?thesis using assms(1) su \<open>\<not> neg\<close> nonan
    by (auto simp: py_float_def split: if_splits option.splits dest: parse_floatnumber_nonneg)
qed

lemma float_decimal:
  assumes "list_all is_digit a" "is_digit d1" "is_digit d2"
  shows "\<exists>q. py_float (a @ [CHR ''.'', d1, d2]) = Inr (Fin q) \<and> 0 \<le> q"
proof -
  let ?u = "a @ [CHR ''.'', d1, d2]"
  have "\<not> is_space CHR ''.''" by (simp add: is_space_def)
  then have nosp: "\<forall>c\<in>set ?u. \<not> is_space c"
    using assms by (auto simp: list_all_iff is_digit_simps)
  have st: "strip ?u = ?u" by (rule strip_id [OF nosp])
  have sg: "split_sign ?u = (False, ?u)"
    using assms by (cases a) (auto simp: is_digit_simps)
  have "to_lower CHR ''.'' = CHR ''.''" by (simp add: to_lower_def)
  then have dot: "CHR ''.'' \<in> set (map to_lower ?u)" by (simp add: image_iff)
  have ninf: "map to_lower ?u \<noteq> ''inf''" "map to_lower ?u \<noteq> ''infinity''" "map to_lower ?u \<noteq> ''nan''"
  proof -
    have "CHR ''.'' \<notin> set ''inf''" "CHR ''.'' \<notin> set ''infinity''" "CHR ''.'' \<notin> set ''nan''"
      by simp_all
    then show "map to_lower ?u \<noteq> ''inf''" "map to_lower ?u \<noteq> ''infinity''"
      "map to_lower ?u \<noteq> ''nan''" using dot by metis+
  qed
  have ne: "\<forall>c\<in>set ?u. c \<noteq> CHR ''e'' \<and> c \<noteq> CHR ''E''"
    using assms by (auto simp: list_all_iff is_digit_simps)
  have tw: "takeWhile (\<lambda>c. c \<noteq> CHR ''e'' \<and> c \<noteq> CHR ''E'') ?u = ?u"
    "dropWhile (\<lambda>c. c \<noteq> CHR ''e'' \<and> c \<noteq> CHR ''E'') ?u = []"
    using ne by auto
  have adot: "\<forall>c\<in>set a. c \<noteq> CHR ''.''" using assms(1) by (auto simp: list_all_iff is_digit_simps)
  have t2: "takeWhile (\<lambda>c. c \<noteq> CHR ''.'') ?u = a" "dropWhile (\<lambda>c. c \<noteq> CHR ''.'') ?u = [CHR ''.'', d1, d2]"
    using adot by (simp_all add: takeWhile_tail dropWhile_append3)
  have dp: "a = [] \<or> digitpart a" "digitpart [d1, d2]"
    using assms digitpart_digits [of a] by (auto simp: is_digit_simps)
  have c: "(a = [] \<or> digitpart a) \<and> ([d1, d2] = [] \<or> digitpart [d1, d2])
      \<and> (a \<noteq> [] \<or> [d1, d2] \<noteq> [])" using dp by blast
  have "parse_number ?u = Some (of_nat (digits_val a)
      + of_nat (digits_val [d1, d2]) / 10 ^ length (filter is_digit [d1, d2]))"
    unfolding parse_number_def Let_def t2 list.case using c by (rule if_P)
  then obtain q where pn: "parse_number ?u = Some q" by blast
  then have "parse_floatnumber ?u = Some q"
    unfolding parse_floatnumber_def Let_def tw by simp
  then have "py_float ?u = Inr (Fin q)"
    unfolding py_float_def st sg using ninf by simp
  moreover have "0 \<le> q" using pn by (rule parse_number_nonneg)
  ultimately show ?thesis by blast
qed

section \<open>Matching\<close>

lemma in_ms_Sym:
  "x \<in> set (ms (Sym cs) s) \<longleftrightarrow>
     (\<exists>c t. rest s = c # t \<and> in_cset cs c \<and> x = s\<lparr>rest := t, bol := (c = CHR 0x0A)\<rparr>)"
  by (cases "rest s") auto

lemma in_star_g:
  "x \<in> set (star_g f s) \<longleftrightarrow>
     x = s \<or> (\<exists>y\<in>set (f s). length (rest y) < length (rest s) \<and> x \<in> set (star_g f y))"
  by (subst star_g.simps) auto

lemma in_star_l:
  "x \<in> set (star_l f s) \<longleftrightarrow>
     x = s \<or> (\<exists>y\<in>set (f s). length (rest y) < length (rest s) \<and> x \<in> set (star_l f y))"
  by (subst star_l.simps) auto

lemma star_g_rel:
  assumes refl: "\<And>a. Q a a"
    and trans: "\<And>a b c. Q a b \<Longrightarrow> Q b c \<Longrightarrow> Q a c"
  shows "x \<in> set (star_g f s) \<Longrightarrow> (\<And>a b. b \<in> set (f a) \<Longrightarrow> Q a b) \<Longrightarrow> Q s x"
proof (induction f s arbitrary: x rule: star_g.induct)
  case (1 f s)
  from "1.prems"(1) consider "x = s"
    | y where "y \<in> set (f s)" "length (rest y) < length (rest s)" "x \<in> set (star_g f y)"
    using in_star_g [of x f s] by blast
  then show ?case
  proof cases
    case 1
    then show ?thesis by (simp add: refl)
  next
    case 2
    then have "Q y x" using "1.IH" [of y x] "1.prems"(2) by simp
    moreover have "Q s y" using 2(1) by (rule "1.prems"(2))
    ultimately show ?thesis using trans by blast
  qed
qed

lemma star_l_rel:
  assumes refl: "\<And>a. Q a a"
    and trans: "\<And>a b c. Q a b \<Longrightarrow> Q b c \<Longrightarrow> Q a c"
  shows "x \<in> set (star_l f s) \<Longrightarrow> (\<And>a b. b \<in> set (f a) \<Longrightarrow> Q a b) \<Longrightarrow> Q s x"
proof (induction f s arbitrary: x rule: star_l.induct)
  case (1 f s)
  from "1.prems"(1) consider "x = s"
    | y where "y \<in> set (f s)" "length (rest y) < length (rest s)" "x \<in> set (star_l f y)"
    using in_star_l [of x f s] by blast
  then show ?case
  proof cases
    case 1
    then show ?thesis by (simp add: refl)
  next
    case 2
    then have "Q y x" using "1.IH" [of y x] "1.prems"(2) by simp
    moreover have "Q s y" using 2(1) by (rule "1.prems"(2))
    ultimately show ?thesis using trans by blast
  qed
qed

lemma reads_refl: "reads P s s"
  by (simp add: reads_def)

lemma reads_trans: "reads P a b \<Longrightarrow> reads P b c \<Longrightarrow> reads P a c"
  unfolding reads_def
proof -
  assume "\<exists>w. rest a = w @ rest b \<and> list_all P w" "\<exists>w. rest b = w @ rest c \<and> list_all P w"
  then obtain u v where "rest a = u @ rest b" "list_all P u" "rest b = v @ rest c" "list_all P v"
    by blast
  then have "rest a = (u @ v) @ rest c \<and> list_all P (u @ v)" by simp
  then show "\<exists>w. rest a = w @ rest c \<and> list_all P w" by blast
qed

lemma reads_mono: "reads P s x \<Longrightarrow> (\<And>c. P c \<Longrightarrow> P' c) \<Longrightarrow> reads P' s x"
  unfolding reads_def by (auto simp: list_all_iff)

lemma ms_reads: "x \<in> set (ms r s) \<Longrightarrow> reads (allowed r) s x"
proof (induction r arbitrary: s x)
  case Eps
  then show ?case by (simp add: reads_refl)
next
  case (Sym cs)
  then obtain c t where "rest s = c # t" "in_cset cs c" "rest x = t"
    unfolding in_ms_Sym by auto
  then have "rest s = [c] @ rest x \<and> list_all (allowed (Sym cs)) [c]" by simp
  then show ?case unfolding reads_def by blast
next
  case (Seq a b)
  then obtain y where "y \<in> set (ms a s)" "x \<in> set (ms b y)" by auto
  then have "reads (allowed a) s y" "reads (allowed b) y x" using Seq.IH by blast+
  then have "reads (allowed (Seq a b)) s y" "reads (allowed (Seq a b)) y x"
    by (auto elim: reads_mono)
  then show ?case by (rule reads_trans)
next
  case (Alt a b)
  then have "reads (allowed a) s x \<or> reads (allowed b) s x" by auto
  then show ?case by (auto elim: reads_mono)
next
  case (Star r)
  have eq: "allowed (Star r) = allowed r" by (rule ext) simp
  from Star.prems have "x \<in> set (star_g (ms r) s)" by simp
  then show ?case unfolding eq
    by (rule star_g_rel [where Q = "reads (allowed r)", rotated 2])
       (auto intro: reads_refl reads_trans dest: Star.IH)
next
  case (LazyStar r)
  have eq: "allowed (LazyStar r) = allowed r" by (rule ext) simp
  from LazyStar.prems have "x \<in> set (star_l (ms r) s)" by simp
  then show ?case unfolding eq
    by (rule star_l_rel [where Q = "reads (allowed r)", rotated 2])
       (auto intro: reads_refl reads_trans dest: LazyStar.IH)
next
  case (Group i r)
  then obtain y where "y \<in> set (ms r s)" "rest x = rest y" by auto
  then show ?case using Group.IH [of y s] by (simp add: reads_def)
next
  case (Look r)
  then show ?case by (auto simp: reads_refl split: if_splits)
next
  case Bol
  then show ?case by (auto simp: reads_refl split: if_splits)
qed

lemma reads_consumed: "reads P s x \<Longrightarrow> rest s = consumed s x @ rest x \<and> list_all P (consumed s x)"
  by (auto simp: reads_def consumed_def)

lemma cap_rel_refl: "cap_rel i B s s"
  by (simp add: cap_rel_def)

lemma cap_rel_trans: "cap_rel i B a b \<Longrightarrow> cap_rel i B b c \<Longrightarrow> cap_rel i B a c"
  unfolding cap_rel_def by metis

lemma cap_rel_mono: "cap_rel i B s x \<Longrightarrow> B \<subseteq> B' \<Longrightarrow> cap_rel i B' s x"
  by (auto simp: cap_rel_def)

lemma ms_caps: "x \<in> set (ms r s) \<Longrightarrow> cap_rel i (gbodies i r) s x"
proof (induction r arbitrary: s x)
  case Eps
  then show ?case by (simp add: cap_rel_refl)
next
  case (Sym cs)
  then show ?case unfolding in_ms_Sym by (auto simp: cap_rel_def)
next
  case (Seq a b)
  then obtain y where "y \<in> set (ms a s)" "x \<in> set (ms b y)" by auto
  then have "cap_rel i (gbodies i a) s y" "cap_rel i (gbodies i b) y x" using Seq.IH by blast+
  then have "cap_rel i (gbodies i (Seq a b)) s y" "cap_rel i (gbodies i (Seq a b)) y x"
    by (auto elim: cap_rel_mono)
  then show ?case by (rule cap_rel_trans)
next
  case (Alt a b)
  then have "cap_rel i (gbodies i a) s x \<or> cap_rel i (gbodies i b) s x" by auto
  then show ?case by (auto elim: cap_rel_mono)
next
  case (Star r)
  from Star.prems have "x \<in> set (star_g (ms r) s)" by simp
  then show ?case
    by (rule star_g_rel [where Q = "cap_rel i (gbodies i (Star r))", rotated 2])
       (auto intro: cap_rel_refl cap_rel_trans dest: Star.IH)
next
  case (LazyStar r)
  from LazyStar.prems have "x \<in> set (star_l (ms r) s)" by simp
  then show ?case
    by (rule star_l_rel [where Q = "cap_rel i (gbodies i (LazyStar r))", rotated 2])
       (auto intro: cap_rel_refl cap_rel_trans dest: LazyStar.IH)
next
  case (Group j r)
  then obtain y where y: "y \<in> set (ms r s)" "x = y\<lparr>caps := (caps y)(j \<mapsto> consumed s y)\<rparr>" by auto
  show ?case
  proof (cases "i = j")
    case True
    then show ?thesis using y by (auto simp: cap_rel_def)
  next
    case False
    then show ?thesis using y Group.IH [of y s] by (auto simp: cap_rel_def)
  qed
next
  case (Look r)
  then show ?case by (auto simp: cap_rel_refl split: if_splits)
next
  case Bol
  then show ?case by (auto simp: cap_rel_refl split: if_splits)
qed

lemma ms_mono: "x \<in> set (ms r s) \<Longrightarrow> caps s i \<noteq> None \<Longrightarrow> caps x i \<noteq> None"
  using ms_caps [of x r s i] by (auto simp: cap_rel_def)

lemma ms_must: "x \<in> set (ms r s) \<Longrightarrow> i \<in> must r \<Longrightarrow> caps x i \<noteq> None"
proof (induction r arbitrary: s x)
  case (Seq a b)
  then obtain y where y: "y \<in> set (ms a s)" "x \<in> set (ms b y)" by auto
  show ?case
  proof (cases "i \<in> must a")
    case True
    then have "caps y i \<noteq> None" using Seq.IH(1) y by blast
    then show ?thesis using ms_mono y by blast
  next
    case False
    then show ?thesis using Seq y by auto
  qed
next
  case (Alt a b)
  then show ?case by auto
next
  case (Group j r)
  then show ?case by auto
qed simp_all

lemma in_ms_Seq:
  "x \<in> set (ms (Seq a b) s) \<longleftrightarrow> (\<exists>y. y \<in> set (ms a s) \<and> x \<in> set (ms b y))"
  by auto


lemma in_ms_Opt: "x \<in> set (ms (Opt r) s) \<longleftrightarrow> x \<in> set (ms r s) \<or> x = s"
  by (auto simp: Opt_def)

lemma in_ms_Group:
  "x \<in> set (ms (Group i r) s) \<longleftrightarrow>
     (\<exists>y. y \<in> set (ms r s) \<and> x = y\<lparr>caps := (caps y)(i \<mapsto> consumed s y)\<rparr>)"
  by auto

lemma in_ms_Look: "x \<in> set (ms (Look r) s) \<longleftrightarrow> x = s \<and> (\<exists>q. q \<in> set (ms r s))"
  by (cases "ms r s") auto

lemma in_ms_chr:
  "x \<in> set (ms (chr a) s) \<longleftrightarrow> (\<exists>t. rest s = a # t \<and> x = s\<lparr>rest := t, bol := (a = CHR 0x0A)\<rparr>)"
  unfolding chr_def in_ms_Sym by auto

lemma in_ms_digit:
  "x \<in> set (ms digit s) \<longleftrightarrow>
     (\<exists>c t. rest s = c # t \<and> is_digit c \<and> x = s\<lparr>rest := t, bol := (c = CHR 0x0A)\<rparr>)"
  unfolding digit_def in_ms_Sym is_digit_def by simp

lemma times_simps: "times 2 r = Seq r r" "times 3 r = Seq r (Seq r r)" "times 4 r = Seq r (Seq r (Seq r r))"
  by (simp_all add: times_def eval_nat_numeral)

lemma first_match_in: "first_match r s = Some m \<Longrightarrow> m \<in> set (ms r s)"
  by (auto simp: first_match_def split: list.splits)

lemma re_match_in: "re_match r t = Some m \<Longrightarrow> m \<in> set (ms r (init t))"
  by (simp add: re_match_def first_match_in)

lemma search_from_in:
  "search_from r t b = Some m \<Longrightarrow> \<exists>s. caps s = Map.empty \<and> m \<in> set (ms r s)"
proof (induction t arbitrary: b)
  case Nil
  then have "m \<in> set (ms r \<lparr>rest = [], bol = b, caps = Map.empty\<rparr>)" by (simp add: first_match_in)
  moreover have "caps \<lparr>rest = [], bol = b, caps = Map.empty\<rparr> = Map.empty" by simp
  ultimately show ?case by blast
next
  case (Cons c cs)
  show ?case
  proof (cases "first_match r \<lparr>rest = c # cs, bol = b, caps = Map.empty\<rparr>")
    case None
    then show ?thesis using Cons by simp
  next
    case (Some m')
    then have "m \<in> set (ms r \<lparr>rest = c # cs, bol = b, caps = Map.empty\<rparr>)"
      using Cons.prems by (simp add: first_match_in)
    moreover have "caps \<lparr>rest = c # cs, bol = b, caps = Map.empty\<rparr> = Map.empty" by simp
    ultimately show ?thesis by blast
  qed
qed

lemma re_search_in: "re_search r t = Some m \<Longrightarrow> \<exists>s. caps s = Map.empty \<and> m \<in> set (ms r s)"
  unfolding re_search_def by (rule search_from_in)

text \<open>What a group holds after a match that started with no group set.\<close>

lemma group_of_match:
  assumes "m \<in> set (ms r s)" "caps s i = None"
  shows "group m i = None \<or>
    (\<exists>b\<in>gbodies i r. \<exists>s1 s2. s2 \<in> set (ms b s1) \<and> group m i = Some (consumed s1 s2)
        \<and> rest s1 = consumed s1 s2 @ rest s2 \<and> list_all (allowed b) (consumed s1 s2))"
proof -
  from ms_caps [OF assms(1), of i] consider "caps m i = caps s i"
    | b s1 s2 where "b \<in> gbodies i r" "s2 \<in> set (ms b s1)" "caps m i = Some (consumed s1 s2)"
    unfolding cap_rel_def by blast
  then show ?thesis
  proof cases
    case 1
    then show ?thesis using assms(2) by (simp add: group_def)
  next
    case 2
    from reads_consumed [OF ms_reads [OF 2(2)]] 2 show ?thesis
      unfolding group_def by blast
  qed
qed

lemma group_must: "m \<in> set (ms r s) \<Longrightarrow> i \<in> must r \<Longrightarrow> \<exists>g. group m i = Some g"
  using ms_must [of m r s i] by (auto simp: group_def)

lemmas pattern_defs = transaction_pattern_def numeric_ahead_def instrument_re_def amount0_re_def
  amount_re_def date2_re_def ws1_def Plus_def Opt_def Str_def chr_def digit_def times_simps

lemma tx_amount_bodies:
  "b \<in> gbodies 5 transaction_pattern \<union> gbodies 6 transaction_pattern \<union> gbodies 7 transaction_pattern
     \<Longrightarrow> allowed b c \<Longrightarrow> amount_char c"
  by (auto simp: pattern_defs amount_char_def is_digit_def)

lemma tx_amount_groups:
  assumes "re_match transaction_pattern t = Some m" "i = 5 \<or> i = 6 \<or> i = 7"
  shows "group m i = None \<or> (\<exists>g. group m i = Some g \<and> list_all amount_char g)"
proof -
  have m: "m \<in> set (ms transaction_pattern (init t))" using assms(1) by (rule re_match_in)
  have "caps (init t) i = None" by (simp add: init_def)
  from group_of_match [OF m this] show ?thesis
  proof
    assume "group m i = None" then show ?thesis by simp
  next
    assume "\<exists>b\<in>gbodies i transaction_pattern. \<exists>s1 s2. s2 \<in> set (ms b s1) \<and>
      group m i = Some (consumed s1 s2) \<and> rest s1 = consumed s1 s2 @ rest s2 \<and>
      list_all (allowed b) (consumed s1 s2)"
    then obtain b g where b: "b \<in> gbodies i transaction_pattern" "group m i = Some g"
      "list_all (allowed b) g" by blast
    have "b \<in> gbodies 5 transaction_pattern \<union> gbodies 6 transaction_pattern \<union> gbodies 7 transaction_pattern"
      using b(1) assms(2) by blast
    then have "list_all amount_char g" using b(3) tx_amount_bodies unfolding list_all_iff by blast
    then show ?thesis using b(2) by blast
  qed
qed

section \<open>The transaction loop\<close>

lemma skip_line_iff:
  "skip_line l \<longleftrightarrow> list_all is_space l \<or> (\<exists>mk\<in>set non_transaction_markers. sublist mk l)"
  unfolding skip_line_def contains_sublist strip_Nil_iff non_transaction_markers_def by auto

lemma set_map_filter: "set (List.map_filter f xs) = {y. \<exists>x\<in>set xs. f x = Some y}"
  by (induction xs) (auto split: option.splits)

lemma length_filter_mono:
  "(\<And>x. P x \<Longrightarrow> Q x) \<Longrightarrow> length (filter P xs) \<le> length (filter Q xs)"
  by (induction xs) auto

lemma extract_transactions_map_filter:
  "extract_transactions zp text = List.map_filter (line_transaction zp) (split_on CHR 0x0A text)"
  by (simp add: extract_transactions_def transaction_loop_map_filter)

lemma amount_char_safe:
  "amount_char c \<Longrightarrow> c \<noteq> CHR ''-'' \<and> c \<noteq> CHR ''n'' \<and> c \<noteq> CHR ''N''"
  by (auto simp: amount_char_def is_digit_def)

lemma amount_str_chars:
  assumes "g = None \<or> (\<exists>s. g = Some s \<and> list_all amount_char s)"
  shows "list_all amount_char (amount_str g)"
proof -
  let ?s = "case g of None \<Rightarrow> ''0.00'' | Some s \<Rightarrow> if s = [] then ''0.00'' else s"
  have z: "list_all amount_char ''0.00''" by (simp add: amount_char_def is_digit_def)
  have "list_all amount_char ?s" using assms z by (auto split: option.splits)
  then have "list_all amount_char (strip ?s)" using set_strip [of ?s] by (auto simp: list_all_iff)
  then show ?thesis by (simp add: amount_str_def remove_commas_def list_all_iff)
qed

lemma amount_val_nonneg:
  assumes "g = None \<or> (\<exists>s. g = Some s \<and> list_all amount_char s)"
    and "amount_val (amount_str g) = Inr w"
  shows "nonneg w"
proof (cases "amount_str g = []")
  case True
  then show ?thesis using assms(2) by (auto simp: amount_val_def)
next
  case False
  then have f: "py_float (amount_str g) = Inr w" using assms(2) by (simp add: amount_val_def)
  have "\<forall>c\<in>set (amount_str g). amount_char c"
    using amount_str_chars [OF assms(1)] by (simp add: list_all_iff)
  then have "CHR ''-'' \<notin> set (amount_str g)" "CHR ''n'' \<notin> set (amount_str g)"
    "CHR ''N'' \<notin> set (amount_str g)" using amount_char_safe by blast+
  with f show ?thesis by (rule py_float_nonneg)
qed

lemma ebind_Inr: "ebind x f = Inr y \<longleftrightarrow> (\<exists>a. x = Inr a \<and> f a = Inr y)"
  by (cases x) (simp_all add: ebind_def)

lemma build_transaction_amounts:
  assumes "build_transaction zp m = Inr t"
  shows "amount_val (amount_str (group m 5)) = Inr (withdrawal t)"
    and "amount_val (amount_str (group m 6)) = Inr (deposit t)"
    and "amount_val (amount_str (group m 7)) = Inr (balance t)"
  using assms unfolding build_transaction_def Let_def ebind_Inr by auto

lemma line_transaction_Some:
  assumes "line_transaction zp l = Some t"
  obtains m where "\<not> skip_line l" "re_match transaction_pattern (strip l) = Some m"
    "build_transaction zp m = Inr t"
  using assms unfolding line_transaction_def
  by (auto split: if_splits option.splits sum.splits)

lemma line_transaction_nonneg:
  assumes "line_transaction zp l = Some t"
  shows "nonneg (withdrawal t) \<and> nonneg (deposit t)"
proof -
  from assms obtain m where m: "re_match transaction_pattern (strip l) = Some m"
    "build_transaction zp m = Inr t" by (rule line_transaction_Some)
  have "nonneg (withdrawal t)"
    using amount_val_nonneg [OF _ build_transaction_amounts(1) [OF m(2)]]
      tx_amount_groups [OF m(1), of 5] by blast
  moreover have "nonneg (deposit t)"
    using amount_val_nonneg [OF _ build_transaction_amounts(2) [OF m(2)]]
      tx_amount_groups [OF m(1), of 6] by blast
  ultimately show ?thesis by simp
qed

subsection \<open>An example line, evaluated\<close>

lemmas float_eval = amount_val_def amount_str_def remove_commas_def py_float_def strip_def
  is_space_def parse_floatnumber_def parse_number_def digits_val_def digit_val_def is_digit_def
  to_lower_def Let_def

lemma cheque_line_groups:
  "map_option (\<lambda>m. map (group m) [1, 2, 3, 4, 5, 6, 7])
     (re_match transaction_pattern
        (strip ''01/03/25 02/03/25 Cheque CHQ123 1,000.00 0.00 5,000.00''))
   = Some [Some ''01/03/25'', Some ''02/03/25'', Some ''Cheque CHQ123'', None,
           Some ''1,000.00'', Some ''0.00'', Some ''5,000.00'']"
  by code_simp

lemma cheque_line_kept:
  "\<not> skip_line ''01/03/25 02/03/25 Cheque CHQ123 1,000.00 0.00 5,000.00''"
  by code_simp

lemma date_010325: "convert_date_format True ''01/03/25'' = Inr ''2025-03-01''"
  by code_simp

lemma date_020325: "convert_date_format True ''02/03/25'' = Inr ''2025-03-02''"
  by code_simp

lemma cheque_line:
  "line_transaction True ''01/03/25 02/03/25 Cheque CHQ123 1,000.00 0.00 5,000.00''
   = Some \<lparr>date = ''2025-03-01'', post_date = ''2025-03-02'', description = ''Cheque CHQ123'',
           reference = None, withdrawal = Fin 1000, deposit = Fin 0, balance = Fin 5000\<rparr>"
proof -
  from cheque_line_groups obtain m where
    m: "re_match transaction_pattern
          (strip ''01/03/25 02/03/25 Cheque CHQ123 1,000.00 0.00 5,000.00'') = Some m"
    and g: "group m 1 = Some ''01/03/25''" "group m 2 = Some ''02/03/25''"
      "group m 3 = Some ''Cheque CHQ123''" "group m 4 = None" "group m 5 = Some ''1,000.00''"
      "group m 6 = Some ''0.00''" "group m 7 = Some ''5,000.00''"
    by auto
  have a: "amount_val (amount_str (Some ''1,000.00'')) = Inr (Fin 1000)"
    "amount_val (amount_str (Some ''0.00'')) = Inr (Fin 0)"
    "amount_val (amount_str (Some ''5,000.00'')) = Inr (Fin 5000)"
    by (simp_all add: float_eval)
  have s: "strip_group (Some ''Cheque CHQ123'') = Inr ''Cheque CHQ123''"
    by (simp add: strip_group_def strip_def is_space_def)
  have "build_transaction True m
      = Inr \<lparr>date = ''2025-03-01'', post_date = ''2025-03-02'', description = ''Cheque CHQ123'',
           reference = None, withdrawal = Fin 1000, deposit = Fin 0, balance = Fin 5000\<rparr>"
    unfolding build_transaction_def Let_def g a s convert_group_def
    by (simp add: ebind_def date_010325 date_020325)
  then show ?thesis
    unfolding line_transaction_def using cheque_line_kept m by simp
qed

lemma header_then_cheque:
  "transactions (parse_bank_statement True
      ''Trans Date Post Date Particulars\<newline>01/03/25 02/03/25 Cheque CHQ123 1,000.00 0.00 5,000.00'')
   = [\<lparr>date = ''2025-03-01'', post_date = ''2025-03-02'', description = ''Cheque CHQ123'',
       reference = None, withdrawal = Fin 1000, deposit = Fin 0, balance = Fin 5000\<rparr>]"
proof -
  have l: "split_on CHR 0x0A
      ''Trans Date Post Date Particulars\<newline>01/03/25 02/03/25 Cheque CHQ123 1,000.00 0.00 5,000.00''
    = [''Trans Date Post Date Particulars'',
       ''01/03/25 02/03/25 Cheque CHQ123 1,000.00 0.00 5,000.00'']"
    by simp
  have "skip_line ''Trans Date Post Date Particulars''" by code_simp
  then have h: "line_transaction True ''Trans Date Post Date Particulars'' = None"
    by (simp add: line_transaction_def)
  show ?thesis
    unfolding parse_bank_statement_def extract_transactions_map_filter l
    by (simp add: h cheque_line)
qed

section \<open>The instrument group behind the lookahead\<close>

lemma instrument_char_simps:
  "\<not> instrument_char CHR '',''" "\<not> instrument_char CHR ''.''"
  "is_space c \<Longrightarrow> \<not> instrument_char c"
  by (auto simp: instrument_char_def is_space_def)

lemma in_ms_Str_Cons:
  "x \<in> set (ms (Str (c # cs)) s) \<longleftrightarrow>
     (\<exists>t. rest s = c # t \<and> x \<in> set (ms (Str cs) (s\<lparr>rest := t, bol := (c = CHR 0x0A)\<rparr>)))"
proof -
  have eq: "Str (c # cs) = Seq (Sym (Lit c)) (Str cs)" by (simp add: Str_def)
  show ?thesis unfolding eq in_ms_Seq in_ms_Sym by auto
qed

text \<open>An amount starts with one to three digits and then a comma or the point.\<close>

lemma amount_start:
  assumes "q \<in> set (ms amount_re s)"
  shows "\<exists>ds p t. rest s = ds @ p # t \<and> ds \<noteq> [] \<and> list_all is_digit ds
     \<and> (p = CHR '','' \<or> p = CHR ''.'')"
proof -
  from assms obtain ya yb yc yd where
    ya: "ya \<in> set (ms digit s)" and
    yb: "yb \<in> set (ms (Opt (Seq digit (Opt digit))) ya)" and
    yc: "yc \<in> set (ms (Star (Seq (chr CHR '','') (times 3 digit))) yb)" and
    yd: "yd \<in> set (ms (chr CHR ''.'') yc)"
    unfolding amount_re_def seqs.simps in_ms_Seq by blast
  from ya obtain c where c: "rest s = c # rest ya" "is_digit c"
    unfolding in_ms_digit by auto
  have "reads (allowed (Opt (Seq digit (Opt digit)))) ya yb" using yb by (rule ms_reads)
  then obtain w where w: "rest ya = w @ rest yb" "list_all is_digit w"
    unfolding reads_def by (auto simp: Opt_def digit_def is_digit_def list_all_iff)
  from yd obtain t where t: "rest yc = CHR ''.'' # t" unfolding in_ms_chr by auto
  from yc have "yc \<in> set (star_g (ms (Seq (chr CHR '','') (times 3 digit))) yb)" by simp
  then have "yc = yb \<or> (\<exists>y. y \<in> set (ms (Seq (chr CHR '','') (times 3 digit)) yb))"
    by (subst (asm) in_star_g) blast
  then have "yc = yb \<or> (\<exists>t'. rest yb = CHR '','' # t')"
    unfolding in_ms_Seq in_ms_chr by auto
  then obtain p t' where p: "rest yb = p # t'" "p = CHR '','' \<or> p = CHR ''.''"
    using t by auto
  have "rest s = (c # w) @ p # t' \<and> c # w \<noteq> [] \<and> list_all is_digit (c # w)
     \<and> (p = CHR '','' \<or> p = CHR ''.'')" using c w p by simp
  then show ?thesis by blast
qed

lemma prefix_before_stop:
  assumes "w @ r = ds @ p # t" "list_all P w" "\<not> P p" "list_all Q ds"
  shows "list_all Q w"
proof -
  from assms(1) obtain us where "(w = ds @ us \<and> us @ r = p # t) \<or> (w @ us = ds \<and> r = us @ p # t)"
    unfolding append_eq_append_conv2 by blast
  then show ?thesis
  proof
    assume a: "w = ds @ us \<and> us @ r = p # t"
    show ?thesis
    proof (cases us)
      case Nil
      then show ?thesis using a assms(4) by simp
    next
      case (Cons u us')
      then have "p \<in> set w" using a by auto
      then show ?thesis using assms(2,3) by (simp add: list_all_iff)
    qed
  next
    assume "w @ us = ds \<and> r = us @ p # t"
    then have "set w \<subseteq> set ds" by auto
    then show ?thesis using assms(4) by (auto simp: list_all_iff)
  qed
qed

text \<open>What the instrument group can hold where the lookahead has succeeded.\<close>

lemma instrument_after_lookahead:
  assumes la: "q \<in> set (ms (Alt amount_re (Alt (Str ''0.00'') (Seq ws1 amount_re))) s)"
    and z: "z \<in> set (ms instrument_re s)"
  shows "consumed s z \<noteq> [] \<and> list_all is_digit (consumed s z)"
proof -
  from z obtain y where y: "y \<in> set (ms (Sym (OneOf ''ABCDEFGHIJKLMNOPQRSTUVWXYZ0123456789'')) s)"
    and zy: "z \<in> set (ms (Star (Sym (OneOf ''ABCDEFGHIJKLMNOPQRSTUVWXYZ0123456789''))) y)"
    unfolding instrument_re_def Plus_def in_ms_Seq by blast
  from y obtain c where c: "rest s = c # rest y" "instrument_char c"
    unfolding in_ms_Sym instrument_char_def by auto
  have "reads (allowed (Star (Sym (OneOf ''ABCDEFGHIJKLMNOPQRSTUVWXYZ0123456789'')))) y z"
    using zy by (rule ms_reads)
  then obtain w' where w': "rest y = w' @ rest z" "list_all instrument_char w'"
    unfolding reads_def by (auto simp: instrument_char_def list_all_iff)
  define w where "w = c # w'"
  have w: "rest s = w @ rest z" "list_all instrument_char w" "w \<noteq> []" "hd w = c"
    using c w' by (simp_all add: w_def)
  then have cw: "consumed s z = w" by (simp add: consumed_def)
  from la consider "q \<in> set (ms amount_re s)" | "q \<in> set (ms (Str ''0.00'') s)"
    | "q \<in> set (ms (Seq ws1 amount_re) s)" by auto
  then have "list_all is_digit w"
  proof cases
    case 1
    from amount_start [OF 1] obtain ds p t where
      d: "rest s = ds @ p # t" "list_all is_digit ds" "p = CHR '','' \<or> p = CHR ''.''" by blast
    have "\<not> instrument_char p" using d(3) instrument_char_simps by auto
    with w(1,2) d(1,2) show ?thesis using prefix_before_stop [of w "rest z" ds p t] by simp
  next
    case 2
    then obtain t1 t2 where "rest s = CHR ''0'' # t1" "t1 = CHR ''.'' # t2"
      unfolding in_ms_Str_Cons by auto
    then have "rest s = [CHR ''0''] @ CHR ''.'' # t2" by simp
    moreover have "list_all is_digit [CHR ''0'']" by (simp add: is_digit_def)
    ultimately show ?thesis
      using w(1,2) instrument_char_simps(2) prefix_before_stop [of w "rest z" "[CHR ''0'']" "CHR ''.''" t2]
      by simp
  next
    case 3
    then obtain y' where "y' \<in> set (ms (Sym Space) s)"
      unfolding ws1_def Plus_def in_ms_Seq by blast
    then obtain c' where "rest s = c' # rest y'" "is_space c'" unfolding in_ms_Sym by auto
    then have "is_space c" using c(1) by simp
    then show ?thesis using c(2) instrument_char_simps(3) by blast
  qed
  then show ?thesis using cw w(3) by simp
qed

lemma keep_group: "x \<in> set (ms r s) \<Longrightarrow> gbodies i r = {} \<Longrightarrow> caps x i = caps s i"
  using ms_caps [of x r s i] by (simp add: cap_rel_def)

lemma tx_instrument_group:
  assumes "re_match transaction_pattern t = Some m"
  shows "group m 4 = None \<or> (\<exists>g. group m 4 = Some g \<and> g \<noteq> [] \<and> list_all is_digit g)"
proof -
  have m: "m \<in> set (ms transaction_pattern (init t))" using assms by (rule re_match_in)
  then obtain y1 y2 y3 y4 y5 y6 y7 y8 y9 y10 y11 y12 y13 where
    y: "y1 \<in> set (ms (Group 1 date2_re) (init t))" "y2 \<in> set (ms ws1 y1)"
      "y3 \<in> set (ms (Group 2 date2_re) y2)" "y4 \<in> set (ms ws1 y3)"
      "y5 \<in> set (ms (Group 3 (LazyStar (Sym Dot))) y4)" "y6 \<in> set (ms ws1 y5)"
      "y7 \<in> set (ms numeric_ahead y6)"
      "y8 \<in> set (ms (Opt (Group 4 instrument_re)) y7)"
      "y9 \<in> set (ms (Star (Sym Space)) y8)"
      "y10 \<in> set (ms (Opt (Group 5 amount0_re)) y9)" "y11 \<in> set (ms ws1 y10)"
      "y12 \<in> set (ms (Opt (Group 6 amount0_re)) y11)" "y13 \<in> set (ms ws1 y12)"
      "m \<in> set (ms (Group 7 amount_re) y13)"
    unfolding transaction_pattern_def seqs.simps in_ms_Seq by (elim exE conjE)
  have g0: "gbodies 4 (Group 1 date2_re) = {}" "gbodies 4 ws1 = {}" "gbodies 4 (Group 2 date2_re) = {}"
    "gbodies 4 (Group 3 (LazyStar (Sym Dot))) = {}" "gbodies 4 (Star (Sym Space)) = {}"
    "gbodies 4 (Opt (Group 5 amount0_re)) = {}" "gbodies 4 (Opt (Group 6 amount0_re)) = {}"
    "gbodies 4 (Group 7 amount_re) = {}"
    by (simp_all add: pattern_defs)
  have "caps y1 4 = caps (init t) 4" using y(1) g0(1) by (rule keep_group)
  moreover have "caps y2 4 = caps y1 4" using y(2) g0(2) by (rule keep_group)
  moreover have "caps y3 4 = caps y2 4" using y(3) g0(3) by (rule keep_group)
  moreover have "caps y4 4 = caps y3 4" using y(4) g0(2) by (rule keep_group)
  moreover have "caps y5 4 = caps y4 4" using y(5) g0(4) by (rule keep_group)
  moreover have "caps y6 4 = caps y5 4" using y(6) g0(2) by (rule keep_group)
  ultimately have "caps y6 4 = caps (init t) 4" by simp
  then have n6: "caps y6 4 = None" by (simp add: init_def)
  have "caps y9 4 = caps y8 4" using y(9) g0(5) by (rule keep_group)
  moreover have "caps y10 4 = caps y9 4" using y(10) g0(6) by (rule keep_group)
  moreover have "caps y11 4 = caps y10 4" using y(11) g0(2) by (rule keep_group)
  moreover have "caps y12 4 = caps y11 4" using y(12) g0(7) by (rule keep_group)
  moreover have "caps y13 4 = caps y12 4" using y(13) g0(2) by (rule keep_group)
  moreover have "caps m 4 = caps y13 4" using y(14) g0(8) by (rule keep_group)
  ultimately have last: "caps m 4 = caps y8 4" by simp
  from y(7) obtain q where y7: "y7 = y6"
    and q: "q \<in> set (ms (Alt amount_re (Alt (Str ''0.00'') (Seq ws1 amount_re))) y6)"
    unfolding numeric_ahead_def in_ms_Look by blast
  from y(8) consider "y8 = y6"
    | z where "z \<in> set (ms instrument_re y6)" "y8 = z\<lparr>caps := (caps z)(4 \<mapsto> consumed y6 z)\<rparr>"
    unfolding y7 in_ms_Opt in_ms_Group by blast
  then show ?thesis
  proof cases
    case 1
    then show ?thesis using last n6 by (simp add: group_def)
  next
    case 2
    from instrument_after_lookahead [OF q 2(1)] 2(2) last show ?thesis
      by (simp add: group_def)
  qed
qed

lemma build_transaction_reference:
  assumes "build_transaction zp m = Inr t"
  shows "reference t = (case group m 4 of None \<Rightarrow> None
                        | Some r \<Rightarrow> if r = [] then None else Some (strip r))"
  using assms unfolding build_transaction_def Let_def ebind_Inr by auto

lemma is_digit_not_upper: "is_digit c \<Longrightarrow> c \<notin> set ''ABCDEFGHIJKLMNOPQRSTUVWXYZ''"
  unfolding is_digit_def by (elim disjE | simp)+

subsection \<open>A line whose amount is split by the instrument group\<close>

lemma split_amount_groups:
  "map_option (\<lambda>m. map (group m) [1, 2, 3, 4, 5, 6, 7])
     (re_match transaction_pattern
        (strip ''01/03/25 02/03/25 Desc 123.45 1,000.00 5,000.00''))
   = Some [Some ''01/03/25'', Some ''02/03/25'', Some ''Desc'', Some ''12'',
           Some ''3.45'', Some ''1,000.00'', Some ''5,000.00'']"
  by code_simp

lemma split_amount_kept:
  "\<not> skip_line ''01/03/25 02/03/25 Desc 123.45 1,000.00 5,000.00''"
  by code_simp

lemma split_amount_line:
  "line_transaction True ''01/03/25 02/03/25 Desc 123.45 1,000.00 5,000.00''
   = Some \<lparr>date = ''2025-03-01'', post_date = ''2025-03-02'', description = ''Desc'',
           reference = Some ''12'', withdrawal = Fin (345 / 100), deposit = Fin 1000,
           balance = Fin 5000\<rparr>"
proof -
  from split_amount_groups obtain m where
    m: "re_match transaction_pattern
          (strip ''01/03/25 02/03/25 Desc 123.45 1,000.00 5,000.00'') = Some m"
    and g: "group m 1 = Some ''01/03/25''" "group m 2 = Some ''02/03/25''"
      "group m 3 = Some ''Desc''" "group m 4 = Some ''12''" "group m 5 = Some ''3.45''"
      "group m 6 = Some ''1,000.00''" "group m 7 = Some ''5,000.00''"
    by auto
  have a: "amount_val (amount_str (Some ''3.45'')) = Inr (Fin (345 / 100))"
    "amount_val (amount_str (Some ''1,000.00'')) = Inr (Fin 1000)"
    "amount_val (amount_str (Some ''5,000.00'')) = Inr (Fin 5000)"
    by (simp_all add: float_eval)
  have s: "strip_group (Some ''Desc'') = Inr ''Desc''" "strip ''12'' = ''12''"
    by (simp_all add: strip_group_def strip_def is_space_def)
  have "build_transaction True m
      = Inr \<lparr>date = ''2025-03-01'', post_date = ''2025-03-02'', description = ''Desc'',
           reference = Some ''12'', withdrawal = Fin (345 / 100), deposit = Fin 1000,
           balance = Fin 5000\<rparr>"
    unfolding build_transaction_def Let_def g a s convert_group_def
    by (simp add: ebind_def date_010325 date_020325 s)
  then show ?thesis
    unfolding line_transaction_def using split_amount_kept m by simp
qed

section \<open>The totals line\<close>

lemma total_num_shape:
  assumes "s2 \<in> set (ms total_num_re s1)"
  shows "\<exists>a d1 d2. consumed s1 s2 = a @ [CHR ''.'', d1, d2]
     \<and> list_all (\<lambda>c. is_digit c \<or> c = CHR '','') a \<and> is_digit d1 \<and> is_digit d2"
proof -
  from assms obtain ya yb yc where
    ya: "ya \<in> set (ms (Plus (Sym (OneOf ''0123456789,''))) s1)" and
    yb: "yb \<in> set (ms (chr CHR ''.'') ya)" and
    yc: "yc \<in> set (ms digit yb)" and
    yd: "s2 \<in> set (ms digit yc)"
    unfolding total_num_re_def seqs.simps times_simps in_ms_Seq by (elim exE conjE)
  have "reads (allowed (Plus (Sym (OneOf ''0123456789,'')))) s1 ya" using ya by (rule ms_reads)
  then obtain a where a: "rest s1 = a @ rest ya" "list_all (\<lambda>c. is_digit c \<or> c = CHR '','') a"
    unfolding reads_def by (auto simp: Plus_def is_digit_def list_all_iff)
  from yb have b: "rest ya = CHR ''.'' # rest yb" unfolding in_ms_chr by auto
  from yc obtain d1 where d1: "rest yb = d1 # rest yc" "is_digit d1" unfolding in_ms_digit by auto
  from yd obtain d2 where d2: "rest yc = d2 # rest s2" "is_digit d2" unfolding in_ms_digit by auto
  have "rest s1 = (a @ [CHR ''.'', d1, d2]) @ rest s2" using a b d1 d2 by simp
  then have "consumed s1 s2 = a @ [CHR ''.'', d1, d2]" by (simp add: consumed_def)
  with a d1 d2 show ?thesis by blast
qed

lemma float_total_num:
  assumes "list_all (\<lambda>c. is_digit c \<or> c = CHR '','') a" "is_digit d1" "is_digit d2"
  shows "\<exists>q. py_float (remove_commas (a @ [CHR ''.'', d1, d2])) = Inr (Fin q) \<and> 0 \<le> q"
proof -
  have "remove_commas (a @ [CHR ''.'', d1, d2]) = remove_commas a @ [CHR ''.'', d1, d2]"
    using assms(2,3) by (simp add: remove_commas_def is_digit_simps)
  moreover have "list_all is_digit (remove_commas a)"
    using assms(1) by (auto simp: remove_commas_def list_all_iff)
  ultimately show ?thesis using float_decimal [OF _ assms(2,3)] by simp
qed

lemma gbodies_total_num: "gbodies i total_num_re = {}"
  by (simp add: total_num_re_def Plus_def chr_def digit_def times_simps)

lemma total_groups:
  assumes "re_search total_re text = Some m" "i = 1 \<or> i = 2 \<or> i = 3"
  shows "\<exists>g q. group m i = Some g \<and> py_float (remove_commas g) = Inr (Fin q) \<and> 0 \<le> q"
proof -
  from re_search_in [OF assms(1)] obtain s where s: "caps s = Map.empty" "m \<in> set (ms total_re s)"
    by blast
  have "i \<in> must total_re" using assms(2) by (auto simp: total_re_def)
  from group_must [OF s(2) this] obtain g where g: "group m i = Some g" by blast
  have "gbodies i total_re \<subseteq> {total_num_re}"
    using assms(2) by (auto simp: total_re_def ws1_def Plus_def Str_def chr_def gbodies_total_num)
  moreover have "caps s i = None" using s(1) by simp
  ultimately obtain s1 s2 where "s2 \<in> set (ms total_num_re s1)" "group m i = Some (consumed s1 s2)"
    using group_of_match [OF s(2), of i] g by auto
  with total_num_shape [of s2 s1] g obtain a d1 d2 where
    "g = a @ [CHR ''.'', d1, d2]" "list_all (\<lambda>c. is_digit c \<or> c = CHR '','') a"
    "is_digit d1" "is_digit d2" by auto
  with float_total_num [of a d1 d2] g show ?thesis by blast
qed

section \<open>Exceptions and the account information\<close>

lemma py_int_error: "py_int s = Inl e \<Longrightarrow> e = ValueError"
  by (auto simp: py_int_def split: prod.splits if_splits)

lemma ebind_Inl: "ebind x f = Inl e \<longleftrightarrow> x = Inl e \<or> (\<exists>a. x = Inr a \<and> f a = Inl e)"
  by (cases x) (simp_all add: ebind_def)

lemma ebind_error:
  assumes "ebind x f = Inl e" "\<And>e'. x = Inl e' \<Longrightarrow> e' = v"
    "\<And>a e'. f a = Inl e' \<Longrightarrow> e' = v"
  shows "e = v"
  using assms by (cases x) (auto simp: ebind_def)

lemma int_of_group_error: "int_of_group (Some g) = Inl e \<Longrightarrow> e = ValueError"
  by (simp add: int_of_group_def py_int_error)

lemma strptime_error: "strptime f s = Inl e \<Longrightarrow> e = ValueError"
proof (cases "re_match (strptime_regex f) s")
  case None
  assume "strptime f s = Inl e"
  with None show ?thesis by (simp add: strptime_def)
next
  case (Some m)
  assume e: "strptime f s = Inl e"
  have m: "m \<in> set (ms (strptime_regex f) (init s))" using Some by (rule re_match_in)
  have "1 \<in> must (strptime_regex f)" "2 \<in> must (strptime_regex f)" "3 \<in> must (strptime_regex f)"
    by (simp_all add: strptime_regex_def)
  then have "\<exists>g1 g2 g3. group m 1 = Some g1 \<and> group m 2 = Some g2 \<and> group m 3 = Some g3"
    using group_must [OF m, of 1] group_must [OF m, of 2] group_must [OF m, of 3] by simp
  then obtain g1 g2 g3 where
    g: "group m 1 = Some g1" "group m 2 = Some g2" "group m 3 = Some g3" by (elim exE conjE)
  show ?thesis
  proof (cases "rest m = []")
    case False
    then show ?thesis using e Some by (simp add: strptime_def)
  next
    case True
    then have "ebind (int_of_group (Some g1)) (\<lambda>d.
            ebind (int_of_group (Some g2)) (\<lambda>mo.
            ebind (int_of_group (Some g3)) (\<lambda>y.
              if valid_date (century f y) mo d then Inr (century f y, mo, d)
              else Inl ValueError))) = Inl e"
      using e Some g by (simp add: strptime_def)
    then show ?thesis
    proof (rule ebind_error)
      fix e' assume "int_of_group (Some g1) = Inl e'"
      then show "e' = ValueError" by (rule int_of_group_error)
    next
      fix d e'
      assume "ebind (int_of_group (Some g2)) (\<lambda>mo.
            ebind (int_of_group (Some g3)) (\<lambda>y.
              if valid_date (century f y) mo d then Inr (century f y, mo, d)
              else Inl ValueError)) = Inl e'"
      then show "e' = ValueError"
      proof (rule ebind_error)
        fix e'' assume "int_of_group (Some g2) = Inl e''"
        then show "e'' = ValueError" by (rule int_of_group_error)
      next
        fix mo e''
        assume "ebind (int_of_group (Some g3)) (\<lambda>y.
              if valid_date (century f y) mo d then Inr (century f y, mo, d)
              else Inl ValueError) = Inl e''"
        then show "e'' = ValueError"
        proof (rule ebind_error)
          fix e3 assume "int_of_group (Some g3) = Inl e3"
          then show "e3 = ValueError" by (rule int_of_group_error)
        next
          fix y e3
          assume "(if valid_date (century f y) mo d then Inr (century f y, mo, d)
              else Inl ValueError) = Inl e3"
          then show "e3 = ValueError" by (simp split: if_splits)
        qed
      qed
    qed
  qed
qed

lemma convert_date_format_total: "\<exists>r. convert_date_format zp s = Inr r"
proof (cases "strptime Y2 s")
  case (Inr d)
  then show ?thesis by (simp add: convert_date_format_def)
next
  case (Inl e)
  then have e: "e = ValueError" by (rule strptime_error)
  show ?thesis
  proof (cases "strptime Y4 s")
    case (Inr d)
    then show ?thesis using Inl e by (simp add: convert_date_format_def)
  next
    case (Inl e')
    then have "e' = ValueError" by (rule strptime_error)
    then show ?thesis using Inl \<open>strptime Y2 s = Inl e\<close> e by (simp add: convert_date_format_def)
  qed
qed

lemma header_must:
  "1 \<in> must account_holder_re" "1 \<in> must account_type_re" "1 \<in> must account_no_re"
  "1 \<in> must period_re" "2 \<in> must period_re"
  by (simp_all add: account_holder_re_def account_type_re_def account_no_re_def period_re_def)

lemma search_group:
  "re_search r text = Some m \<Longrightarrow> i \<in> must r \<Longrightarrow> \<exists>g. group m i = Some g"
  using re_search_in group_must by blast

lemma stripped_field:
  assumes "1 \<in> must r"
  shows "\<exists>v. (case re_search r src of None \<Rightarrow> Inr JNull
           | Some m \<Rightarrow> ebind (strip_group (group m 1)) (\<lambda>s. Inr (JStr s))) = Inr v
         \<and> (re_search r src = None \<longrightarrow> v = JNull)
         \<and> (re_search r src \<noteq> None \<longrightarrow> (\<exists>s. v = JStr s))"
proof (cases "re_search r src")
  case None
  then show ?thesis by simp
next
  case (Some m)
  from search_group [OF Some assms] obtain g where "group m 1 = Some g" by blast
  then have "group m (Suc 0) = Some g" by simp
  then show ?thesis using Some by (simp add: strip_group_def ebind_def)
qed

lemma period_field:
  "\<exists>a b. (case re_search period_re src of
        None \<Rightarrow> ai(''statement_period'' \<mapsto> JObj [(''start_date'', JNull), (''end_date'', JNull)])
      | Some m \<Rightarrow>
         (case ebind (strip_group (group m 1)) (\<lambda>start_date_str.
               ebind (strip_group (group m 2)) (\<lambda>end_date_str.
               ebind (convert_date_format zp start_date_str) (\<lambda>sd.
               ebind (convert_date_format zp end_date_str) (\<lambda>ed.
                 Inr (JObj [(''start_date'', JStr sd), (''end_date'', JStr ed)]))))) of
            Inl e \<Rightarrow> ai
          | Inr period \<Rightarrow> ai(''statement_period'' \<mapsto> period)))
     = ai(''statement_period'' \<mapsto> JObj [(''start_date'', a), (''end_date'', b)])
     \<and> (re_search period_re src = None \<longrightarrow> a = JNull \<and> b = JNull)
     \<and> (re_search period_re src \<noteq> None \<longrightarrow> (\<exists>sd ed. a = JStr sd \<and> b = JStr ed))"
proof (cases "re_search period_re src")
  case None
  then show ?thesis by simp
next
  case (Some m)
  from search_group [OF Some header_must(4)] search_group [OF Some header_must(5)]
  obtain g1 g2 where g: "group m 1 = Some g1" "group m 2 = Some g2" by blast
  obtain sd ed where c: "convert_date_format zp (strip g1) = Inr sd"
    "convert_date_format zp (strip g2) = Inr ed"
    using convert_date_format_total by blast
  have g': "group m (Suc 0) = Some g1" using g(1) by simp
  show ?thesis
    by (rule exI [of _ "JStr sd"], rule exI [of _ "JStr ed"])
       (simp add: Some g g' c strip_group_def ebind_def)
qed

section \<open>Evaluating a line and a totals line\<close>

lemma line_transaction_eval:
  assumes "\<not> skip_line l"
    and "map_option (\<lambda>m. map (group m) [1, 2, 3, 4, 5, 6, 7])
          (re_match transaction_pattern (strip l))
         = Some [Some d1, Some d2, Some ds, None, g5, g6, g7]"
    and "convert_date_format zp d1 = Inr a" "convert_date_format zp d2 = Inr b"
    and "amount_val (amount_str g5) = Inr w" "amount_val (amount_str g6) = Inr d"
      "amount_val (amount_str g7) = Inr bal"
  shows "line_transaction zp l
    = Some \<lparr>date = a, post_date = b, description = strip ds, reference = None,
            withdrawal = w, deposit = d, balance = bal\<rparr>"
proof -
  from assms(2) obtain m where
    m: "re_match transaction_pattern (strip l) = Some m"
    and g: "group m 1 = Some d1" "group m 2 = Some d2" "group m 3 = Some ds" "group m 4 = None"
      "group m 5 = g5" "group m 6 = g6" "group m 7 = g7"
    by auto
  have "build_transaction zp m
      = Inr \<lparr>date = a, post_date = b, description = strip ds, reference = None,
             withdrawal = w, deposit = d, balance = bal\<rparr>"
    unfolding build_transaction_def Let_def g assms(3-7) convert_group_def strip_group_def
    by (simp add: ebind_def assms(3-7))
  then show ?thesis
    unfolding line_transaction_def using assms(1) m by simp
qed

lemma two_blanks_line:
  "transactions (parse_bank_statement True ''01/03/25 02/03/25 Cash Deposit 1,000.00  5,000.00'')
   = [\<lparr>date = ''2025-03-01'', post_date = ''2025-03-02'', description = ''Cash Deposit'',
       reference = None, withdrawal = Fin 1000, deposit = Fin 0, balance = Fin 5000\<rparr>]"
proof -
  let ?l = "''01/03/25 02/03/25 Cash Deposit 1,000.00  5,000.00''"
  have l: "split_on CHR 0x0A ?l = [?l]" by simp
  have k: "\<not> skip_line ?l" by code_simp
  have g: "map_option (\<lambda>m. map (group m) [1, 2, 3, 4, 5, 6, 7])
          (re_match transaction_pattern (strip ?l))
         = Some [Some ''01/03/25'', Some ''02/03/25'', Some ''Cash Deposit'', None,
                 Some ''1,000.00'', None, Some ''5,000.00'']" by code_simp
  have a: "amount_val (amount_str (Some ''1,000.00'')) = Inr (Fin 1000)"
    "amount_val (amount_str None) = Inr (Fin 0)"
    "amount_val (amount_str (Some ''5,000.00'')) = Inr (Fin 5000)"
    by (simp_all add: float_eval)
  have s: "strip ''Cash Deposit'' = ''Cash Deposit''" by (simp add: strip_def is_space_def)
  from line_transaction_eval [OF k g date_010325 date_020325 a]
  show ?thesis
    unfolding parse_bank_statement_def extract_transactions_map_filter l s by simp
qed



section \<open>The date conversion, token by token\<close>







subsection \<open>int of the fields\<close>


































































section \<open>The totals line in a text\<close>


























section \<open>The claims\<close>

text \<open>
  Claim C7. For every input text, the number of transaction records is at most the number
  of lines that the skip test retains; every record has a withdrawal and a deposit that
  are not negative; and the records stand in the order of their source lines: there is a
  strictly increasing list of line numbers such that the k-th record is the record of the
  k-th of these lines.
\<close>

theorem transactions_count_sign_order:
  "length (transactions (parse_bank_statement zp text))
      \<le> length (filter (\<lambda>l. \<not> skip_line l) (split_on CHR 0x0A text))
   \<and> (\<forall>t\<in>set (transactions (parse_bank_statement zp text)).
        nonneg (withdrawal t) \<and> nonneg (deposit t))
   \<and> (\<exists>is. sorted_wrt (<) is
        \<and> (\<forall>i\<in>set is. i < length (split_on CHR 0x0A text))
        \<and> map Some (transactions (parse_bank_statement zp text))
            = map (\<lambda>i. line_transaction zp (split_on CHR 0x0A text ! i)) is)"
proof -
  let ?ls = "split_on CHR 0x0A text"
  have tr: "transactions (parse_bank_statement zp text) = List.map_filter (line_transaction zp) ?ls"
    by (simp add: parse_bank_statement_def extract_transactions_map_filter)
  have "length (List.map_filter (line_transaction zp) ?ls)
      \<le> length (filter (\<lambda>l. line_transaction zp l \<noteq> None) ?ls)" by (rule length_map_filter_le)
  also have "\<dots> \<le> length (filter (\<lambda>l. \<not> skip_line l) ?ls)"
    by (rule length_filter_mono) (auto simp: line_transaction_def)
  finally have a: "length (transactions (parse_bank_statement zp text))
      \<le> length (filter (\<lambda>l. \<not> skip_line l) ?ls)" unfolding tr .
  have b: "\<forall>t\<in>set (transactions (parse_bank_statement zp text)).
      nonneg (withdrawal t) \<and> nonneg (deposit t)"
    unfolding tr set_map_filter using line_transaction_nonneg by blast
  from map_filter_indices [of ?ls "line_transaction zp"]
  have c: "\<exists>is. sorted_wrt (<) is \<and> (\<forall>i\<in>set is. i < length ?ls)
      \<and> map Some (transactions (parse_bank_statement zp text))
          = map (\<lambda>i. line_transaction zp (?ls ! i)) is"
    unfolding tr by blast
  from a b c show ?thesis by blast
qed

theorem transactions_count_sign_order_witness:
  "transactions (parse_bank_statement True
      ''Trans Date Post Date Particulars\<newline>01/03/25 02/03/25 Cheque CHQ123 1,000.00 0.00 5,000.00'')
     \<noteq> []
   \<and> nonneg (withdrawal (hd (transactions (parse_bank_statement True
      ''Trans Date Post Date Particulars\<newline>01/03/25 02/03/25 Cheque CHQ123 1,000.00 0.00 5,000.00''))))
   \<and> length (transactions (parse_bank_statement True
      ''Trans Date Post Date Particulars\<newline>01/03/25 02/03/25 Cheque CHQ123 1,000.00 0.00 5,000.00''))
     \<le> 1"
proof -
  let ?t = "''Trans Date Post Date Particulars\<newline>01/03/25 02/03/25 Cheque CHQ123 1,000.00 0.00 5,000.00''"
  have ne: "transactions (parse_bank_statement True ?t) \<noteq> []"
    by (simp add: header_then_cheque)
  then have hd: "hd (transactions (parse_bank_statement True ?t))
      \<in> set (transactions (parse_bank_statement True ?t))" by simp
  have k: "length (filter (\<lambda>l. \<not> skip_line l) (split_on CHR 0x0A ?t)) = 1" by code_simp
  from transactions_count_sign_order [of True ?t] hd ne show ?thesis
    unfolding k by blast
qed

text \<open>
  Claim C9. A line that is blank or white space only, or that contains one of the
  non-transaction markers, yields no record: taking the line out of the lines leaves the
  result of the loop as it is. In particular the text
  \<^verbatim>\<open>Trans Date Post Date Particulars\<close> yields no transaction.
\<close>

theorem skipped_lines_yield_nothing:
  "(list_all is_space line \<or> (\<exists>mk\<in>set non_transaction_markers. sublist mk line)
      \<longrightarrow> line_transaction zp line = None
        \<and> transaction_loop zp (before @ line # after) acc = transaction_loop zp (before @ after) acc)
   \<and> transactions (parse_bank_statement zp ''Trans Date Post Date Particulars'') = []"
proof -
  have "line_transaction zp line = None
      \<and> transaction_loop zp (before @ line # after) acc = transaction_loop zp (before @ after) acc"
    if "list_all is_space line \<or> (\<exists>mk\<in>set non_transaction_markers. sublist mk line)"
  proof -
    from that have "skip_line line" by (simp add: skip_line_iff)
    then have n: "line_transaction zp line = None" by (simp add: line_transaction_def)
    then show ?thesis by (simp add: transaction_loop_map_filter map_filter_append)
  qed
  moreover have "sublist ''Trans Date'' ''Trans Date Post Date Particulars''"
    by (simp add: sublist_code)
  then have "skip_line ''Trans Date Post Date Particulars''"
    unfolding skip_line_iff non_transaction_markers_def by simp
  then have "transactions (parse_bank_statement zp ''Trans Date Post Date Particulars'') = []"
    by (simp add: parse_bank_statement_def extract_transactions_def line_transaction_def)
  ultimately show ?thesis by blast
qed

theorem skipped_lines_yield_nothing_witness:
  "(\<exists>mk\<in>set non_transaction_markers. sublist mk ''Page 1 of 3'')
   \<and> line_transaction True ''Page 1 of 3'' = None
   \<and> transaction_loop True [''Page 1 of 3''] [] = []"
proof -
  have "sublist ''Page'' ''Page 1 of 3''" by (simp add: sublist_code)
  then have m: "\<exists>mk\<in>set non_transaction_markers. sublist mk ''Page 1 of 3''"
    by (simp add: non_transaction_markers_def)
  with skipped_lines_yield_nothing [of "''Page 1 of 3''" True "[]" "[]" "[]"] show ?thesis
    by simp
qed

text \<open>
  Claim C10. In every record that the parser produces, the reference is null or a
  nonempty string of decimal digits, so it holds no upper-case letter: the lookahead
  lets the instrument group start only where an amount starts, and there the group can
  take no more than the leading digits of that amount.
\<close>

theorem reference_is_digits:
  "\<forall>t\<in>set (transactions (parse_bank_statement zp text)).
     reference t = None \<or>
     (\<exists>r. reference t = Some r \<and> r \<noteq> [] \<and> list_all is_digit r
          \<and> \<not> (\<exists>c\<in>set r. c \<in> set ''ABCDEFGHIJKLMNOPQRSTUVWXYZ''))"
proof
  fix t
  assume "t \<in> set (transactions (parse_bank_statement zp text))"
  then obtain l where "line_transaction zp l = Some t"
    unfolding parse_bank_statement_def by (auto simp: extract_transactions_map_filter set_map_filter)
  then obtain m where m: "re_match transaction_pattern (strip l) = Some m"
    "build_transaction zp m = Inr t" by (rule line_transaction_Some)
  from tx_instrument_group [OF m(1)] show "reference t = None \<or>
     (\<exists>r. reference t = Some r \<and> r \<noteq> [] \<and> list_all is_digit r
          \<and> \<not> (\<exists>c\<in>set r. c \<in> set ''ABCDEFGHIJKLMNOPQRSTUVWXYZ''))"
  proof
    assume "group m 4 = None"
    then show ?thesis using build_transaction_reference [OF m(2)] by simp
  next
    assume "\<exists>g. group m 4 = Some g \<and> g \<noteq> [] \<and> list_all is_digit g"
    then obtain g where g: "group m 4 = Some g" "g \<noteq> []" "list_all is_digit g" by blast
    then have "strip g = g" using strip_id [of g] is_digit_simps(1) by (auto simp: list_all_iff)
    then have "reference t = Some g" using build_transaction_reference [OF m(2)] g by simp
    moreover have "\<not> (\<exists>c\<in>set g. c \<in> set ''ABCDEFGHIJKLMNOPQRSTUVWXYZ'')"
      using g(3) is_digit_not_upper unfolding list_all_iff by blast
    ultimately show ?thesis using g by blast
  qed
qed

theorem reference_is_digits_witness:
  "transactions (parse_bank_statement True ''01/03/25 02/03/25 Desc 123.45 1,000.00 5,000.00'')
     \<noteq> []
   \<and> reference (hd (transactions (parse_bank_statement True
        ''01/03/25 02/03/25 Desc 123.45 1,000.00 5,000.00''))) = Some ''12''
   \<and> list_all is_digit (the (reference (hd (transactions (parse_bank_statement True
        ''01/03/25 02/03/25 Desc 123.45 1,000.00 5,000.00'')))))"
proof -
  let ?t = "''01/03/25 02/03/25 Desc 123.45 1,000.00 5,000.00''"
  have l: "split_on CHR 0x0A ?t = [?t]" by simp
  have e: "transactions (parse_bank_statement True ?t)
      = [\<lparr>date = ''2025-03-01'', post_date = ''2025-03-02'', description = ''Desc'',
           reference = Some ''12'', withdrawal = Fin (345 / 100), deposit = Fin 1000,
           balance = Fin 5000\<rparr>]"
    unfolding parse_bank_statement_def extract_transactions_map_filter l
    by (simp add: split_amount_line)
  then have r: "reference (hd (transactions (parse_bank_statement True ?t))) = Some ''12''"
    and ne: "transactions (parse_bank_statement True ?t) \<noteq> []" by simp_all
  from ne have "hd (transactions (parse_bank_statement True ?t))
      \<in> set (transactions (parse_bank_statement True ?t))" by simp
  with reference_is_digits [of True ?t] r
  have "list_all is_digit (the (reference (hd (transactions (parse_bank_statement True ?t)))))"
    by fastforce
  with r ne show ?thesis by simp
qed

text \<open>
  Claim C3. For every input text the totals are all three set, and then the totals pattern
  has matched, or all three null, and then it has not. The three assignments of the source
  follow one another, each after a \<^verbatim>\<open>float\<close> that could raise; no text makes one of them
  raise, since each captured number is digits and commas, a point and two digits.
\<close>

theorem totals_all_or_nothing:
  "(\<exists>w d b. totals (parse_bank_statement zp text)
        = \<lparr>total_withdrawal = Some w, total_deposit = Some d, final_balance = Some b\<rparr>
        \<and> re_search total_re text \<noteq> None)
   \<or> (totals (parse_bank_statement zp text)
        = \<lparr>total_withdrawal = None, total_deposit = None, final_balance = None\<rparr>
        \<and> re_search total_re text = None)"
proof (cases "re_search total_re text")
  case None
  then show ?thesis by (simp add: parse_bank_statement_def extract_totals_def)
next
  case (Some m)
  from total_groups [OF Some, of 1] total_groups [OF Some, of 2] total_groups [OF Some, of 3]
  obtain g1 q1 g2 q2 g3 q3 where
    "group m 1 = Some g1" "py_float (remove_commas g1) = Inr (Fin q1)"
    "group m 2 = Some g2" "py_float (remove_commas g2) = Inr (Fin q2)"
    "group m 3 = Some g3" "py_float (remove_commas g3) = Inr (Fin q3)"
    by auto
  then have "totals (parse_bank_statement zp text)
      = \<lparr>total_withdrawal = Some (Fin q1), total_deposit = Some (Fin q2),
         final_balance = Some (Fin q3)\<rparr>"
    using Some by (simp add: parse_bank_statement_def extract_totals_def)
  then show ?thesis using Some by blast
qed

theorem totals_all_or_nothing_witness:
  "re_search total_re ''TOTAL 1.00 2.00 3.00'' \<noteq> None
   \<and> total_withdrawal (totals (parse_bank_statement True ''TOTAL 1.00 2.00 3.00'')) \<noteq> None
   \<and> total_deposit (totals (parse_bank_statement True ''TOTAL 1.00 2.00 3.00'')) \<noteq> None
   \<and> final_balance (totals (parse_bank_statement True ''TOTAL 1.00 2.00 3.00'')) \<noteq> None"
proof -
  have "map_option (\<lambda>m. rest m) (re_search total_re ''TOTAL 1.00 2.00 3.00'') = Some []"
    by code_simp
  then have s: "re_search total_re ''TOTAL 1.00 2.00 3.00'' \<noteq> None" by auto
  with totals_all_or_nothing [of True "''TOTAL 1.00 2.00 3.00''"] show ?thesis by auto
qed

text \<open>
  Claim C4. For every input text the parse returns its result, and \<^verbatim>\<open>account_info\<close> holds
  exactly the keys of the output shape, the statement period being an object with both
  dates; a section whose pattern finds nothing has null values. (\<^verbatim>\<open>transactions\<close> and
  \<^verbatim>\<open>totals\<close> are fields of the returned record, so they are always there.)
\<close>

theorem account_info_shape:
  "dom (account_info (parse_bank_statement zp text)) = result_keys
   \<and> (\<exists>a b. account_info (parse_bank_statement zp text) ''statement_period''
          = Some (JObj [(''start_date'', a), (''end_date'', b)])
        \<and> (re_search period_re text = None \<longrightarrow> a = JNull \<and> b = JNull))
   \<and> (re_search account_holder_re text = None
        \<longrightarrow> account_info (parse_bank_statement zp text) ''account_holder'' = Some JNull)
   \<and> (re_search account_no_re text = None
        \<longrightarrow> account_info (parse_bank_statement zp text) ''account_number'' = Some JNull)
   \<and> (re_search account_type_re text = None
        \<longrightarrow> account_info (parse_bank_statement zp text) ''account_type'' = Some JNull)
   \<and> (re_search total_re text = None
        \<longrightarrow> totals (parse_bank_statement zp text)
            = \<lparr>total_withdrawal = None, total_deposit = None, final_balance = None\<rparr>)"
proof -
  from stripped_field [OF header_must(1), where src = "text"] obtain holder where
    h: "(case re_search account_holder_re text of None \<Rightarrow> Inr JNull
           | Some m \<Rightarrow> ebind (strip_group (group m 1)) (\<lambda>s. Inr (JStr s))) = Inr holder"
       "re_search account_holder_re text = None \<longrightarrow> holder = JNull" by auto
  from stripped_field [OF header_must(2), where src = "text"] obtain ty where
    t: "(case re_search account_type_re text of None \<Rightarrow> Inr JNull
           | Some m \<Rightarrow> ebind (strip_group (group m 1)) (\<lambda>s. Inr (JStr s))) = Inr ty"
       "re_search account_type_re text = None \<longrightarrow> ty = JNull" by auto
  define num where "num = (case re_search account_no_re text of None \<Rightarrow> JNull
      | Some m \<Rightarrow> (case group m 1 of None \<Rightarrow> JNull | Some s \<Rightarrow> JStr s))"
  define ai3 where "ai3 = [''bank'' \<mapsto> JStr ''Islami Bank Bangladesh PLC.'',
      ''account_holder'' \<mapsto> holder, ''account_number'' \<mapsto> num, ''account_type'' \<mapsto> ty]"
  from period_field [where src = "text" and ai = ai3 and zp = zp] obtain a b where
    p: "(case re_search period_re text of
        None \<Rightarrow> ai3(''statement_period'' \<mapsto> JObj [(''start_date'', JNull), (''end_date'', JNull)])
      | Some m \<Rightarrow>
         (case ebind (strip_group (group m 1)) (\<lambda>start_date_str.
               ebind (strip_group (group m 2)) (\<lambda>end_date_str.
               ebind (convert_date_format zp start_date_str) (\<lambda>sd.
               ebind (convert_date_format zp end_date_str) (\<lambda>ed.
                 Inr (JObj [(''start_date'', JStr sd), (''end_date'', JStr ed)]))))) of
            Inl e \<Rightarrow> ai3
          | Inr period \<Rightarrow> ai3(''statement_period'' \<mapsto> period)))
     = ai3(''statement_period'' \<mapsto> JObj [(''start_date'', a), (''end_date'', b)])"
     "re_search period_re text = None \<longrightarrow> a = JNull \<and> b = JNull" by auto
  have ai: "account_info (parse_bank_statement zp text)
      = ai3(''statement_period'' \<mapsto> JObj [(''start_date'', a), (''end_date'', b)])"
    unfolding p(1) [symmetric]
    unfolding parse_bank_statement_def extract_account_info_def Let_def h t ai3_def num_def
    by simp
  have "dom (account_info (parse_bank_statement zp text)) = result_keys"
    unfolding ai ai3_def result_keys_def by auto
  moreover have "account_info (parse_bank_statement zp text) ''statement_period''
      = Some (JObj [(''start_date'', a), (''end_date'', b)])" unfolding ai by simp
  moreover have "account_info (parse_bank_statement zp text) ''account_holder'' = Some holder"
    "account_info (parse_bank_statement zp text) ''account_number'' = Some num"
    "account_info (parse_bank_statement zp text) ''account_type'' = Some ty"
    unfolding ai ai3_def by simp_all
  moreover have "re_search account_no_re text = None \<longrightarrow> num = JNull" by (simp add: num_def)
  moreover have "re_search total_re text = None
        \<longrightarrow> totals (parse_bank_statement zp text)
            = \<lparr>total_withdrawal = None, total_deposit = None, final_balance = None\<rparr>"
    by (simp add: parse_bank_statement_def extract_totals_def)
  ultimately show ?thesis using h(2) t(2) p(2) by auto
qed

theorem account_info_shape_witness:
  "re_search account_holder_re ''Account Type Current\<newline>'' = None
   \<and> dom (account_info (parse_bank_statement True ''Account Type Current\<newline>'')) = result_keys
   \<and> account_info (parse_bank_statement True ''Account Type Current\<newline>'') ''account_holder''
        = Some JNull"
proof -
  have "re_search account_holder_re ''Account Type Current\<newline>'' = None" by code_simp
  with account_info_shape [of True "''Account Type Current\<newline>''"] show ?thesis by blast
qed

text \<open>
  Claim C5. For the empty text every field of \<^verbatim>\<open>account_info\<close> but the bank name is null,
  there is no transaction and the three totals are null.
\<close>

theorem empty_text_result:
  "account_info (parse_bank_statement zp '''') ''bank'' = Some (JStr ''Islami Bank Bangladesh PLC.'')
   \<and> account_info (parse_bank_statement zp '''') ''account_holder'' = Some JNull
   \<and> account_info (parse_bank_statement zp '''') ''account_number'' = Some JNull
   \<and> account_info (parse_bank_statement zp '''') ''account_type'' = Some JNull
   \<and> account_info (parse_bank_statement zp '''') ''statement_period''
        = Some (JObj [(''start_date'', JNull), (''end_date'', JNull)])
   \<and> transactions (parse_bank_statement zp '''') = []
   \<and> totals (parse_bank_statement zp '''')
        = \<lparr>total_withdrawal = None, total_deposit = None, final_balance = None\<rparr>"
  by code_simp

text \<open>
  Claim C6. For the text of the three header lines the holder is \<^verbatim>\<open>John Doe\<close>, the number
  \<^verbatim>\<open>123456\<close>, the type \<^verbatim>\<open>Savings\<close>, and there is no transaction.
\<close>

theorem three_header_lines:
  "account_info (parse_bank_statement zp
      ''Name John Doe\<newline>Account No 123456\<newline>Account Type Savings\<newline>'') ''account_holder''
     = Some (JStr ''John Doe'')
   \<and> account_info (parse_bank_statement zp
      ''Name John Doe\<newline>Account No 123456\<newline>Account Type Savings\<newline>'') ''account_number''
     = Some (JStr ''123456'')
   \<and> account_info (parse_bank_statement zp
      ''Name John Doe\<newline>Account No 123456\<newline>Account Type Savings\<newline>'') ''account_type''
     = Some (JStr ''Savings'')
   \<and> transactions (parse_bank_statement zp
      ''Name John Doe\<newline>Account No 123456\<newline>Account Type Savings\<newline>'') = []"
  by code_simp




text \<open>
  Claim C1 says that the line \<^verbatim>\<open>01/03/25 02/03/25 Cash Deposit 1,000.00 5,000.00\<close> yields
  one record. The pattern asks for white space after the optional withdrawal and again
  after the optional deposit, so with single blanks between two amounts it cannot match:
  the line yields no record. (\<open>two_blanks_line\<close> above: with two blanks before the balance
  it does.)
\<close>

theorem single_space_line_dropped:
  "transactions (parse_bank_statement zp ''01/03/25 02/03/25 Cash Deposit 1,000.00 5,000.00'') = []"
  by code_simp




end
